theory Spec2Isabelle
  imports Main
begin

section \<open>Data model\<close>

text \<open>
  Python \<open>bytes\<close> are lists of 8-bit characters; Python \<open>str\<close> values are lists of
  Unicode code points. \<open>ustr\<close> turns an ASCII literal into a \<open>str\<close>.
\<close>

type_synonym bytes = "char list"
type_synonym str = "nat list"

definition ustr :: "string \<Rightarrow> str" where
  "ustr s = map of_char s"

text \<open>\<open>str(n)\<close> for a Python int.\<close>

fun str_of_nat :: "nat \<Rightarrow> str" where
  "str_of_nat n = (if n < 10 then [48 + n] else str_of_nat (n div 10) @ [48 + n mod 10])"

declare str_of_nat.simps [simp del]

definition py_str_int :: "int \<Rightarrow> str" where
  "py_str_int i = (if i < 0 then 45 # str_of_nat (nat (- i)) else str_of_nat (nat i))"

text \<open>The firmware manifest, the dict built in \<open>deploy_firmware\<close> and in \<open>Handler.do_POST\<close>;
  field \<open>m_k\<close> is the value at key \<open>k\<close>.\<close>

record manifest =
  m_version :: str
  m_file :: str
  m_md5 :: str
  m_size :: int
  m_board :: str
  m_timestamp :: str

subsection \<open>Library functions used on both sides\<close>

text \<open>\<open>sub in s\<close> for \<open>str\<close> and \<open>bytes\<close>.\<close>

fun contains :: "'a list \<Rightarrow> 'a list \<Rightarrow> bool" where
  "contains sub [] = (sub = [])"
| "contains sub (c # cs) = (take (length sub) (c # cs) = sub \<or> contains sub cs)"

text \<open>\<open>a or b\<close> on strings: the empty string is false.\<close>

definition py_or :: "'a list \<Rightarrow> 'a list \<Rightarrow> 'a list" where
  "py_or a b = (if a \<noteq> [] then a else b)"

text \<open>
  \<open>s.split(sep)\<close>, \<open>s.find(sub)\<close> and \<open>s.rstrip(chars)\<close>. \<open>py_split\<close> is used with a
  separator that is not empty (Python raises \<open>ValueError\<close> on an empty one). \<open>rstrip\<close>
  takes its argument as a set of characters and removes every trailing character in it.
\<close>

fun split_from :: "'a list \<Rightarrow> 'a list \<Rightarrow> 'a list \<Rightarrow> 'a list list" where
  "split_from sep acc [] = [rev acc]"
| "split_from sep acc (c # cs) =
     (if take (length sep) (c # cs) = sep
      then rev acc # split_from sep [] (drop (length sep - 1) cs)
      else split_from sep (c # acc) cs)"

definition py_split :: "'a list \<Rightarrow> 'a list \<Rightarrow> 'a list list" where
  "py_split sep s = split_from sep [] s"

fun py_find :: "'a list \<Rightarrow> 'a list \<Rightarrow> int" where
  "py_find sub [] = (if sub = [] then 0 else - 1)"
| "py_find sub (c # cs) =
     (if take (length sub) (c # cs) = sub then 0
      else (let r = py_find sub cs in if r < 0 then - 1 else r + 1))"

definition py_rstrip :: "'a list \<Rightarrow> 'a list \<Rightarrow> 'a list" where
  "py_rstrip chars s = rev (dropWhile (\<lambda>c. c \<in> set chars) (rev s))"

text \<open>
  \<open>bytes.decode()\<close> and \<open>str.encode()\<close>: strict UTF-8. Decoding rejects overlong forms,
  surrogates and values above \<open>0x10FFFF\<close>; encoding rejects surrogates.
\<close>

definition is_cont :: "nat \<Rightarrow> bool" where
  "is_cont b = (128 \<le> b \<and> b \<le> 191)"

fun utf8_dec :: "nat list \<Rightarrow> str option" where
  "utf8_dec [] = Some []"
| "utf8_dec (b0 # bs) =
     (if b0 < 128 then map_option ((#) b0) (utf8_dec bs)
      else if 194 \<le> b0 \<and> b0 \<le> 223 then
        (case bs of
           b1 # r \<Rightarrow>
             if is_cont b1
             then map_option ((#) ((b0 - 192) * 64 + (b1 - 128))) (utf8_dec r)
             else None
         | _ \<Rightarrow> None)
      else if 224 \<le> b0 \<and> b0 \<le> 239 then
        (case bs of
           b1 # b2 # r \<Rightarrow>
             if (if b0 = 224 then 160 else 128) \<le> b1 \<and> b1 \<le> (if b0 = 237 then 159 else 191)
                \<and> is_cont b2
             then map_option ((#) ((b0 - 224) * 4096 + (b1 - 128) * 64 + (b2 - 128))) (utf8_dec r)
             else None
         | _ \<Rightarrow> None)
      else if 240 \<le> b0 \<and> b0 \<le> 244 then
        (case bs of
           b1 # b2 # b3 # r \<Rightarrow>
             if (if b0 = 240 then 144 else 128) \<le> b1 \<and> b1 \<le> (if b0 = 244 then 143 else 191)
                \<and> is_cont b2 \<and> is_cont b3
             then map_option ((#) ((b0 - 240) * 262144 + (b1 - 128) * 4096
                                    + (b2 - 128) * 64 + (b3 - 128))) (utf8_dec r)
             else None
         | _ \<Rightarrow> None)
      else None)"

definition utf8_decode :: "bytes \<Rightarrow> str option" where
  "utf8_decode b = utf8_dec (map of_char b)"

definition utf8_enc_char :: "nat \<Rightarrow> nat list option" where
  "utf8_enc_char c =
     (if c < 128 then Some [c]
      else if c < 2048 then Some [192 + c div 64, 128 + c mod 64]
      else if 55296 \<le> c \<and> c \<le> 57343 then None
      else if c < 65536 then Some [224 + c div 4096, 128 + c div 64 mod 64, 128 + c mod 64]
      else if c < 1114112
      then Some [240 + c div 262144, 128 + c div 4096 mod 64, 128 + c div 64 mod 64,
                 128 + c mod 64]
      else None)"

fun utf8_encode :: "str \<Rightarrow> bytes option" where
  "utf8_encode [] = Some []"
| "utf8_encode (c # cs) =
     (case utf8_enc_char c of
        None \<Rightarrow> None
      | Some bs \<Rightarrow> map_option ((@) (map char_of bs)) (utf8_encode cs))"

text \<open>
  \<open>json.dumps(d, indent=2)\<close> for a dict whose values are strings and ints, with the
  default \<open>ensure_ascii=True\<close>: every code point outside \<open>' '..'~'\<close>, the double quote
  and the backslash are escaped, code points above \<open>0xFFFF\<close> as a surrogate pair.
\<close>

datatype json = JStr str | JInt int

definition hex_digit :: "nat \<Rightarrow> nat" where
  "hex_digit d = (if d < 10 then 48 + d else 87 + d)"

definition hex4 :: "nat \<Rightarrow> str" where
  "hex4 n = [hex_digit (n div 4096 mod 16), hex_digit (n div 256 mod 16),
             hex_digit (n div 16 mod 16), hex_digit (n mod 16)]"

definition escape_char :: "nat \<Rightarrow> str" where
  "escape_char c =
     (if c = 92 then [92, 92]
      else if c = 34 then [92, 34]
      else if c = 8 then [92, 98]
      else if c = 12 then [92, 102]
      else if c = 10 then [92, 110]
      else if c = 13 then [92, 114]
      else if c = 9 then [92, 116]
      else if 32 \<le> c \<and> c \<le> 126 then [c]
      else if c < 65536 then [92, 117] @ hex4 c
      else [92, 117] @ hex4 (55296 + (c - 65536) div 1024 mod 1024)
           @ [92, 117] @ hex4 (56320 + (c - 65536) mod 1024))"

definition py_encode_basestring_ascii :: "str \<Rightarrow> str" where
  "py_encode_basestring_ascii s = [34] @ concat (map escape_char s) @ [34]"

fun json_value :: "json \<Rightarrow> str" where
  "json_value (JStr s) = py_encode_basestring_ascii s"
| "json_value (JInt i) = py_str_int i"

definition json_item :: "str \<times> json \<Rightarrow> str" where
  "json_item kv = ustr ''  '' @ py_encode_basestring_ascii (fst kv) @ ustr '': '' @ json_value (snd kv)"

fun json_items :: "(str \<times> json) list \<Rightarrow> str" where
  "json_items [] = []"
| "json_items [kv] = json_item kv @ [10]"
| "json_items (kv # kvs) = json_item kv @ [44, 10] @ json_items kvs"

definition json_dumps :: "(str \<times> json) list \<Rightarrow> str" where
  "json_dumps d = (if d = [] then ustr ''{}'' else [123, 10] @ json_items d @ [125])"

definition manifest_dict :: "manifest \<Rightarrow> (str \<times> json) list" where
  "manifest_dict m =
     [(ustr ''version'', JStr (m_version m)), (ustr ''file'', JStr (m_file m)),
      (ustr ''md5'', JStr (m_md5 m)), (ustr ''size'', JInt (m_size m)),
      (ustr ''board'', JStr (m_board m)), (ustr ''timestamp'', JStr (m_timestamp m))]"

subsection \<open>Reading a manifest back\<close>

text \<open>
  \<open>json.loads\<close>, for the JSON texts whose value is an object with strings and integers
  as members; on any other text the result is \<open>None\<close>, which stands both for the
  \<open>JSONDecodeError\<close> of an ill-formed text and for the values left out here (nested
  objects, arrays, floats, \<open>true\<close>, \<open>false\<close>, \<open>null\<close>). The functions follow the
  decoder of the \<open>json\<close> module: \<open>skip_ws\<close> is its white space pattern, \<open>scanstring\<close>
  its \<open>py_scanstring\<close> in strict mode, taking the text after the opening quote and
  giving the decoded string and the text after the closing quote.
\<close>

definition is_ws :: "nat \<Rightarrow> bool" where
  "is_ws c = (c = 32 \<or> c = 9 \<or> c = 10 \<or> c = 13)"

definition skip_ws :: "str \<Rightarrow> str" where
  "skip_ws s = dropWhile is_ws s"

text \<open>
  A \<open>\uXXXX\<close> escape that holds a high surrogate joins with a low surrogate in a
  \<open>\uXXXX\<close> escape right after it into one code point.
\<close>

definition hex_val :: "nat \<Rightarrow> nat option" where
  "hex_val c =
     (if 48 \<le> c \<and> c \<le> 57 then Some (c - 48)
      else if 97 \<le> c \<and> c \<le> 102 then Some (c - 87)
      else if 65 \<le> c \<and> c \<le> 70 then Some (c - 55)
      else None)"

definition decode_uXXXX :: "str \<Rightarrow> nat option" where
  "decode_uXXXX s =
     (case s of
        a # b # c # d # _ \<Rightarrow>
          (case (hex_val a, hex_val b, hex_val c, hex_val d) of
             (Some x, Some y, Some z, Some w) \<Rightarrow> Some (((x * 16 + y) * 16 + z) * 16 + w)
           | _ \<Rightarrow> None)
      | _ \<Rightarrow> None)"

definition backslash :: "nat \<Rightarrow> nat option" where
  "backslash e =
     (if e = 34 then Some 34 else if e = 92 then Some 92 else if e = 47 then Some 47
      else if e = 98 then Some 8 else if e = 102 then Some 12 else if e = 110 then Some 10
      else if e = 114 then Some 13 else if e = 116 then Some 9 else None)"

definition cons_char :: "nat \<Rightarrow> (str \<times> str) option \<Rightarrow> (str \<times> str) option" where
  "cons_char c r = (case r of None \<Rightarrow> None | Some (s, rest) \<Rightarrow> Some (c # s, rest))"

function scanstring :: "str \<Rightarrow> (str \<times> str) option" where
  "scanstring [] = None"
| "scanstring (c # cs) =
     (if c = 34 then Some ([], cs)
      else if c = 92 then
        (case cs of
           [] \<Rightarrow> None
         | e # r \<Rightarrow>
            if e = 117 then
              (case decode_uXXXX r of
                 None \<Rightarrow> None
               | Some uni \<Rightarrow>
                  if 55296 \<le> uni \<and> uni \<le> 56319 \<and> take 2 (drop 4 r) = [92, 117]
                  then (case decode_uXXXX (drop 6 r) of
                          None \<Rightarrow> None
                        | Some uni2 \<Rightarrow>
                           if 56320 \<le> uni2 \<and> uni2 \<le> 57343
                           then cons_char (65536 + (uni - 55296) * 1024 + (uni2 - 56320))
                                  (scanstring (drop 10 r))
                           else cons_char uni (scanstring (drop 4 r)))
                  else cons_char uni (scanstring (drop 4 r)))
            else (case backslash e of
                    None \<Rightarrow> None
                  | Some ch \<Rightarrow> cons_char ch (scanstring r)))
      else if c < 32 then None
      else cons_char c (scanstring cs))"
  by pat_completeness auto
termination
  by (relation "measure length") auto

text \<open>
  Numbers: an optional minus sign, then \<open>0\<close> or a digit from 1 to 9 with the digits
  after it. A fraction or an exponent makes the number a float.
\<close>

definition is_digit :: "nat \<Rightarrow> bool" where
  "is_digit c = (48 \<le> c \<and> c \<le> 57)"

definition nat_of_digits :: "str \<Rightarrow> nat" where
  "nat_of_digits ds = foldl (\<lambda>a d. a * 10 + (d - 48)) 0 ds"

definition int_or_float :: "nat \<Rightarrow> str \<Rightarrow> (nat \<times> str) option" where
  "int_or_float n rest =
     (case rest of
        c # _ \<Rightarrow> if c = 46 \<or> c = 101 \<or> c = 69 then None else Some (n, rest)
      | [] \<Rightarrow> Some (n, rest))"

definition parse_nat :: "str \<Rightarrow> (nat \<times> str) option" where
  "parse_nat s =
     (case s of
        [] \<Rightarrow> None
      | c # cs \<Rightarrow>
         if c = 48 then int_or_float 0 cs
         else if is_digit c
         then int_or_float (nat_of_digits (takeWhile is_digit s)) (dropWhile is_digit s)
         else None)"

text \<open>Values and members. \<open>parse_pair\<close> reads one \<open>"key": value\<close>, \<open>parse_members\<close>
  the members of an object from the first key to the closing brace.\<close>

definition parse_value :: "str \<Rightarrow> (json \<times> str) option" where
  "parse_value s =
     (case s of
        [] \<Rightarrow> None
      | c # cs \<Rightarrow>
         if c = 34 then map_option (\<lambda>(x, rest). (JStr x, rest)) (scanstring cs)
         else if c = 45 then map_option (\<lambda>(n, rest). (JInt (- int n), rest)) (parse_nat cs)
         else map_option (\<lambda>(n, rest). (JInt (int n), rest)) (parse_nat s))"

definition parse_pair :: "str \<Rightarrow> ((str \<times> json) \<times> str) option" where
  "parse_pair s =
     (case s of
        [] \<Rightarrow> None
      | q # r \<Rightarrow>
         if q \<noteq> 34 then None
         else (case scanstring r of
                 None \<Rightarrow> None
               | Some (key, r1) \<Rightarrow>
                  (case skip_ws r1 of
                     [] \<Rightarrow> None
                   | colon # r2 \<Rightarrow>
                      if colon \<noteq> 58 then None
                      else (case parse_value (skip_ws r2) of
                              None \<Rightarrow> None
                            | Some (v, r3) \<Rightarrow> Some ((key, v), r3)))))"

function parse_members :: "str \<Rightarrow> ((str \<times> json) list \<times> str) option" where
  "parse_members s =
     (case parse_pair s of
        None \<Rightarrow> None
      | Some (kv, r3) \<Rightarrow>
         (case skip_ws r3 of
            [] \<Rightarrow> None
          | d # r4 \<Rightarrow>
             if d = 125 then Some ([kv], r4)
             else if d = 44
             then (case parse_members (skip_ws r4) of
                     None \<Rightarrow> None
                   | Some (kvs, r5) \<Rightarrow> Some (kv # kvs, r5))
             else None))"
  by pat_completeness auto
termination
proof (relation "measure length")
  show "wf (measure length)" by simp
next
  have cons: "cons_char c x = Some (a, b) \<Longrightarrow> \<exists>a'. x = Some (a', b)" for c x a b
    by (cases x) (auto simp add: cons_char_def)
  have scan: "scanstring t = Some (k, rest) \<Longrightarrow> length rest < length t" for t k rest
  proof (induction t arbitrary: k rule: scanstring.induct)
    case 1
    then show ?case by simp
  next
    case (2 c cs)
    show ?case
    proof (cases "c = 34")
      case True
      with "2.prems" show ?thesis by simp
    next
      case c34: False
      show ?thesis
      proof (cases "c = 92")
        case True
        note c92 = True
        show ?thesis
        proof (cases cs)
          case Nil
          with "2.prems" c34 c92 show ?thesis by simp
        next
          case (Cons e r)
          show ?thesis
          proof (cases "e = 117")
            case False
            with "2.prems" c34 c92 Cons obtain ch where ch: "backslash e = Some ch"
              and "cons_char ch (scanstring r) = Some (k, rest)"
              by (auto split: option.splits)
            from cons [OF this(2)] obtain k' where "scanstring r = Some (k', rest)" by blast
            from "2.IH"(4) [OF c34 c92 Cons False ch this] show ?thesis by (simp add: Cons)
          next
            case True
            with "2.prems" c34 c92 Cons obtain uni where uni: "decode_uXXXX r = Some uni"
              by (auto split: option.splits)
            show ?thesis
            proof (cases "55296 \<le> uni \<and> uni \<le> 56319 \<and> take 2 (drop 4 r) = [92, 117]")
              case False
              with "2.prems" c34 c92 Cons True uni
              have "cons_char uni (scanstring (drop 4 r)) = Some (k, rest)" by auto
              from cons [OF this] obtain k' where "scanstring (drop 4 r) = Some (k', rest)" by blast
              from "2.IH"(3) [OF c34 c92 Cons True uni False this] show ?thesis by (simp add: Cons)
            next
              case sur: True
              with "2.prems" c34 c92 Cons True uni obtain uni2 where uni2: "decode_uXXXX (drop 6 r) = Some uni2"
                by (auto split: option.splits)
              show ?thesis
              proof (cases "56320 \<le> uni2 \<and> uni2 \<le> 57343")
                case low: True
                with "2.prems" c34 c92 Cons True uni sur uni2
                have "cons_char (65536 + (uni - 55296) * 1024 + (uni2 - 56320)) (scanstring (drop 10 r)) = Some (k, rest)"
                  by auto
                from cons [OF this] obtain k' where "scanstring (drop 10 r) = Some (k', rest)" by blast
                from "2.IH"(1) [OF c34 c92 Cons True uni sur uni2 low this] show ?thesis by (simp add: Cons)
              next
                case nolow: False
                with "2.prems" c34 c92 Cons True uni sur uni2
                have "cons_char uni (scanstring (drop 4 r)) = Some (k, rest)" by auto
                from cons [OF this] obtain k' where "scanstring (drop 4 r) = Some (k', rest)" by blast
                from "2.IH"(2) [OF c34 c92 Cons True uni sur uni2 nolow this] show ?thesis by (simp add: Cons)
              qed
            qed
          qed
        qed
      next
        case False
        with "2.prems" c34 have "cons_char c (scanstring cs) = Some (k, rest)" and c32: "\<not> c < 32"
          by (auto split: if_splits)
        from cons [OF this(1)] obtain k' where "scanstring cs = Some (k', rest)" by blast
        from "2.IH"(5) [OF c34 False c32 this] show ?thesis by simp
      qed
    qed
  qed
  have ws: "length (skip_ws t) \<le> length t" for t
    by (simp add: skip_ws_def length_dropWhile_le)
  have iof: "int_or_float n t = Some (m, rest) \<Longrightarrow> rest = t" for n t m rest
    by (auto simp add: int_or_float_def split: list.splits if_splits)
  have pn: "parse_nat t = Some (n, rest) \<Longrightarrow> length rest \<le> length t" for t n rest
    by (cases t) (auto simp add: parse_nat_def  dest!: iof split: if_splits
          intro: le_trans [OF length_dropWhile_le])
  have pv: "parse_value t = Some (v, rest) \<Longrightarrow> length rest \<le> length t" for t v rest
    by (cases t) (auto simp add: parse_value_def split: if_splits dest!: scan pn)
  have pp: "parse_pair t = Some (kv, rest) \<Longrightarrow> length rest < length t" for t kv rest
  proof -
    assume a: "parse_pair t = Some (kv, rest)"
    then obtain q r where t: "t = q # r" by (cases t) (auto simp add: parse_pair_def)
    with a obtain key r1 where s: "scanstring r = Some (key, r1)"
      by (auto simp add: parse_pair_def split: if_splits option.splits)
    with a t obtain colon r2 where c: "skip_ws r1 = colon # r2"
      by (auto simp add: parse_pair_def split: if_splits option.splits list.splits)
    with a t s obtain v where v: "parse_value (skip_ws r2) = Some (v, rest)"
      by (auto simp add: parse_pair_def split: if_splits option.splits list.splits)
    from scan [OF s] have 1: "length r1 < length r" .
    from c ws [of r1] have 2: "length r2 < length r1" by simp
    from pv [OF v] ws [of r2] have 3: "length rest \<le> length r2" by simp
    from 1 2 3 t show ?thesis by simp
  qed
  fix s :: str and x kv r3 d r4
  assume a: "parse_pair s = Some x" "(kv, r3) = x" "skip_ws r3 = d # r4"
  from a(1,2) have 1: "length r3 < length s" using pp by metis
  from a(3) ws [of r3] have 2: "length r4 < length r3" by simp
  from ws [of r4] 1 2
  show "(skip_ws r4, s) \<in> measure length" by simp
qed

definition json_loads :: "str \<Rightarrow> (str \<times> json) list option" where
  "json_loads s =
     (case skip_ws s of
        [] \<Rightarrow> None
      | b # r \<Rightarrow>
         if b \<noteq> 123 then None
         else (case skip_ws r of
                 [] \<Rightarrow> None
               | c # r1 \<Rightarrow>
                  if c = 125 then (if skip_ws r1 = [] then Some [] else None)
                  else (case parse_members (c # r1) of
                          None \<Rightarrow> None
                        | Some (kvs, r2) \<Rightarrow> if skip_ws r2 = [] then Some kvs else None)))"

definition dict_get :: "(str \<times> json) list \<Rightarrow> str \<Rightarrow> json option" where
  "dict_get d k = map_of (rev d) k"

text \<open>
  \<open>json.load(f)[k]\<close> on a file: the value at key \<open>k\<close> of the object read from the text
  of the file. A key that comes twice keeps the value that comes last.
\<close>

definition read_back :: "str option \<Rightarrow> str \<Rightarrow> json option" where
  "read_back f k =
     (case f of
        None \<Rightarrow> None
      | Some text \<Rightarrow> (case json_loads text of None \<Rightarrow> None | Some d \<Rightarrow> dict_get d k))"

text \<open>
  Text: a string of Unicode scalar values, that is, code points up to \<open>0x10FFFF\<close> that
  are not surrogates. Strings decoded from UTF-8, as the options of \<open>platformio.ini\<close>
  are, hold nothing else.
\<close>

definition valid_cp :: "nat \<Rightarrow> bool" where
  "valid_cp c = (c < 55296 \<or> (57343 < c \<and> c < 1114112))"

definition valid_str :: "str \<Rightarrow> bool" where
  "valid_str s = list_all valid_cp s"

fun valid_json :: "json \<Rightarrow> bool" where
  "valid_json (JStr s) = valid_str s"
| "valid_json (JInt i) = True"

definition ends_number :: "str \<Rightarrow> bool" where
  "ends_number rest = (case rest of [] \<Rightarrow> True
      | c # _ \<Rightarrow> \<not> is_digit c \<and> c \<noteq> 46 \<and> c \<noteq> 101 \<and> c \<noteq> 69)"

section \<open>Upload client: \<open>deploy_ota.py\<close>\<close>

subsection \<open>Observable effects\<close>

text \<open>
  Every \<open>print\<close> of the script is a \<open>Print\<close> event carrying the data of its f-string;
  network operations and \<open>time.sleep\<close> are events of their own.
\<close>

datatype log_line =
    LogNoRequests
  | LogInstallHint
  | LogUploading str
  | LogPython
  | LogTesting str
  | LogSocketOK
  | LogSocketFailed str
  | LogHealth int
  | LogHealthFailed str
  | LogAttempt nat nat
  | LogUploadOK str int
  | LogUploadFailed int
  | LogResponse str
  | LogRetrying
  | LogTimeout nat
  | LogConnError nat str
  | LogError str
  | LogFailedAfter nat
  | LogDockerHint
  | LogFirmwareNotFound str
  | LogBanner str
  | LogVersion str
  | LogBoard str
  | LogSize int
  | LogMD5 str
  | LogNoUrl
  | LogRule

datatype event =
    Print log_line
  | SocketConnect str
  | HttpGet str
  | HttpPost str bytes "(str \<times> str) list"
  | Sleep nat

text \<open>What the network does when asked: the outcomes of the three kinds of request of
  \<open>post_firmware_to_server\<close>. An exception carries its message.\<close>

datatype probe_outcome = ProbeOK | ProbeParseError str | ProbeFailed str

datatype health_outcome = HealthStatus int | HealthError str

datatype post_outcome =
    Response int str
  | Timeout
  | ConnectionError str
  | OtherException str

record net =
  probe :: probe_outcome
  health :: health_outcome
  post :: "nat \<Rightarrow> post_outcome"

definition is_network :: "event \<Rightarrow> bool" where
  "is_network e = (case e of SocketConnect _ \<Rightarrow> True | HttpGet _ \<Rightarrow> True
                     | HttpPost _ _ _ \<Rightarrow> True | _ \<Rightarrow> False)"

definition is_post :: "event \<Rightarrow> bool" where
  "is_post e = (case e of HttpPost _ _ _ \<Rightarrow> True | _ \<Rightarrow> False)"


definition prepend :: "event list \<Rightarrow> event list \<times> 'a \<Rightarrow> event list \<times> 'a" where
  "prepend es r = (es @ fst r, snd r)"

subsection \<open>\<open>post_firmware_to_server\<close>\<close>

definition max_retries :: nat where
  "max_retries = 3"

definition form_data :: "manifest \<Rightarrow> (str \<times> str) list" where
  "form_data m =
     [(ustr ''version'', m_version m), (ustr ''md5'', m_md5 m),
      (ustr ''size'', py_str_int (m_size m)), (ustr ''board'', m_board m)]"

text \<open>
  The body of \<open>for attempt in range(1, max_retries + 1)\<close>, by recursion over the list of
  attempt numbers still to run. \<open>continue\<close> and falling out of an \<open>except\<close> clause both
  go on with the rest of the list; the empty list is the code after the loop.
  \<open>fw\<close> is what \<open>firmware_path.read_bytes()\<close> finds: \<open>None\<close> when the read raises, which
  the last \<open>except Exception\<close> clause catches.
\<close>

fun upload_loop :: "net \<Rightarrow> bytes option \<Rightarrow> manifest \<Rightarrow> str \<Rightarrow> nat list \<Rightarrow> event list \<times> bool" where
  "upload_loop w fw m url [] = ([Print (LogFailedAfter max_retries), Print LogDockerHint], False)"
| "upload_loop w fw m url (attempt # rest) =
     (case fw of
        None \<Rightarrow> ([Print (LogAttempt attempt max_retries), Print (LogError (ustr ''read_bytes''))], False)
      | Some firmware_data \<Rightarrow>
         (let sent = [Print (LogAttempt attempt max_retries),
                      HttpPost url firmware_data (form_data m)] in
          case post w attempt of
            Response status_code text \<Rightarrow>
              if status_code = 200 \<or> status_code = 201
              then (sent @ [Print (LogUploadOK (m_version m) (m_size m))], True)
              else if attempt < max_retries
              then prepend (sent @ [Print (LogUploadFailed status_code),
                                    Print (LogResponse (take 200 text)), Print LogRetrying])
                     (upload_loop w fw m url rest)
              else (sent @ [Print (LogUploadFailed status_code),
                            Print (LogResponse (take 200 text))], False)
          | Timeout \<Rightarrow>
              prepend (sent @ [Print (LogTimeout attempt)]
                         @ (if attempt < max_retries then [Print LogRetrying] else []))
                (upload_loop w fw m url rest)
          | ConnectionError e \<Rightarrow>
              prepend (sent @ [Print (LogConnError attempt e)]
                         @ (if attempt < max_retries then [Sleep 2, Print LogRetrying] else []))
                (upload_loop w fw m url rest)
          | OtherException e \<Rightarrow> (sent @ [Print (LogError e)], False)))"

text \<open>\<open>server_url.rsplit('/', 1)[0]\<close>: the text before the last slash, all of it when
  there is none.\<close>

definition rsplit_head :: "str \<Rightarrow> str" where
  "rsplit_head s =
     (if 47 \<in> set s then rev (tl (dropWhile (\<lambda>c. c \<noteq> 47) (rev s))) else s)"

definition socket_test :: "net \<Rightarrow> str \<Rightarrow> event list" where
  "socket_test w server_url =
     (case probe w of
        ProbeParseError e \<Rightarrow> [Print (LogSocketFailed e)]
      | ProbeFailed e \<Rightarrow>
          [Print (LogTesting server_url), SocketConnect server_url, Print (LogSocketFailed e)]
      | ProbeOK \<Rightarrow>
          [Print (LogTesting server_url), SocketConnect server_url, Print LogSocketOK])"

definition health_test :: "net \<Rightarrow> str \<Rightarrow> event list" where
  "health_test w server_url =
     (let health_url = rsplit_head server_url @ ustr ''/health'' in
      case health w of
        HealthStatus c \<Rightarrow> [HttpGet health_url, Print (LogHealth c)]
      | HealthError e \<Rightarrow> [HttpGet health_url, Print (LogHealthFailed e)])"

definition post_firmware_to_server ::
  "bool \<Rightarrow> net \<Rightarrow> bytes option \<Rightarrow> manifest \<Rightarrow> str \<Rightarrow> event list \<times> bool" where
  "post_firmware_to_server has_requests w fw m server_url =
     (if \<not> has_requests then ([Print LogNoRequests, Print LogInstallHint], False)
      else prepend ([Print (LogUploading server_url), Print LogPython]
                      @ socket_test w server_url @ health_test w server_url)
             (upload_loop w fw m server_url [1 ..< max_retries + 1]))"

subsection \<open>\<open>get_firmware_version\<close>\<close>

text \<open>
  The regular expression \<open>FIRMWARE_VERSION[=\\"]+"?([0-9.]+)\<close> as a backtracking matcher,
  one combinator for each of its items. A combinator gets the text still to match and the
  matcher \<open>k\<close> of what follows in the pattern; a greedy item tries its longest match first
  and gives characters back while \<open>k\<close> fails.
\<close>

definition is_sep :: "nat \<Rightarrow> bool" where
  "is_sep c = (c = 61 \<or> c = 92 \<or> c = 34)"

definition is_verchar :: "nat \<Rightarrow> bool" where
  "is_verchar c = ((48 \<le> c \<and> c \<le> 57) \<or> c = 46)"

definition re_literal :: "str \<Rightarrow> str \<Rightarrow> (str \<Rightarrow> 'a option) \<Rightarrow> 'a option" where
  "re_literal lit s k = (if take (length lit) s = lit then k (drop (length lit) s) else None)"

fun re_class_star :: "(nat \<Rightarrow> bool) \<Rightarrow> str \<Rightarrow> (str \<Rightarrow> 'a option) \<Rightarrow> 'a option" where
  "re_class_star P [] k = k []"
| "re_class_star P (c # cs) k =
     (if P c then (case re_class_star P cs k of Some r \<Rightarrow> Some r | None \<Rightarrow> k (c # cs))
      else k (c # cs))"

definition re_class_plus :: "(nat \<Rightarrow> bool) \<Rightarrow> str \<Rightarrow> (str \<Rightarrow> 'a option) \<Rightarrow> 'a option" where
  "re_class_plus P s k =
     (case s of [] \<Rightarrow> None | c # cs \<Rightarrow> if P c then re_class_star P cs k else None)"

definition re_opt_char :: "nat \<Rightarrow> str \<Rightarrow> (str \<Rightarrow> 'a option) \<Rightarrow> 'a option" where
  "re_opt_char ch s k =
     (case s of
        [] \<Rightarrow> k []
      | c # cs \<Rightarrow> if c = ch then (case k cs of Some r \<Rightarrow> Some r | None \<Rightarrow> k (c # cs))
                  else k (c # cs))"

text \<open>The capturing group: the continuation also gets the text the group matched.\<close>

fun re_group_star :: "(nat \<Rightarrow> bool) \<Rightarrow> str \<Rightarrow> str \<Rightarrow> (str \<Rightarrow> str \<Rightarrow> 'a option) \<Rightarrow> 'a option" where
  "re_group_star P acc [] k = k (rev acc) []"
| "re_group_star P acc (c # cs) k =
     (if P c
      then (case re_group_star P (c # acc) cs k of
              Some r \<Rightarrow> Some r | None \<Rightarrow> k (rev acc) (c # cs))
      else k (rev acc) (c # cs))"

definition re_group_plus :: "(nat \<Rightarrow> bool) \<Rightarrow> str \<Rightarrow> (str \<Rightarrow> str \<Rightarrow> 'a option) \<Rightarrow> 'a option" where
  "re_group_plus P s k =
     (case s of [] \<Rightarrow> None | c # cs \<Rightarrow> if P c then re_group_star P [c] cs k else None)"

text \<open>A match of the whole pattern at the start of \<open>s\<close>, giving \<open>group(1)\<close>.\<close>

definition re_match_version :: "str \<Rightarrow> str option" where
  "re_match_version s =
     re_literal (ustr ''FIRMWARE_VERSION'') s (\<lambda>r1.
       re_class_plus is_sep r1 (\<lambda>r2.
         re_opt_char 34 r2 (\<lambda>r3.
           re_group_plus is_verchar r3 (\<lambda>g r4. Some g))))"

text \<open>\<open>re.search\<close>: the match at the leftmost position that has one.\<close>

fun re_search_version :: "str \<Rightarrow> str option" where
  "re_search_version [] = re_match_version []"
| "re_search_version (c # cs) =
     (case re_match_version (c # cs) of Some g \<Rightarrow> Some g | None \<Rightarrow> re_search_version cs)"

text \<open>
  The PlatformIO build environment as far as the script reads it. \<open>None\<close> is an option or
  a variable that is not set. \<open>env_BUILD_FLAGS\<close> holds \<open>str(flag)\<close> for each flag.
\<close>

record build_env =
  env_BUILD_DIR :: str
  env_PROJECT_DIR :: "str option"
  env_BOARD :: "str option"
  env_BUILD_FLAGS :: "str list"
  opt_custom_firmware_version :: "str option"
  opt_flash_method :: "str option"
  opt_ota_server_url :: "str option"

record os_environ =
  os_FLASH_METHOD :: "str option"
  os_OTA_SERVER_URL :: "str option"

definition GetProjectOption :: "str option \<Rightarrow> 'a \<Rightarrow> (str \<Rightarrow> 'a) \<Rightarrow> 'a" where
  "GetProjectOption opt dflt conv = (case opt of None \<Rightarrow> dflt | Some v \<Rightarrow> conv v)"

definition getenv :: "str option \<Rightarrow> str \<Rightarrow> str" where
  "getenv var dflt = (case var of None \<Rightarrow> dflt | Some v \<Rightarrow> v)"

text \<open>The \<open>for flag in env.get("BUILD_FLAGS", [])\<close> loop and the \<open>return "0.0.0"\<close> after it.\<close>

fun scan_build_flags :: "str list \<Rightarrow> str" where
  "scan_build_flags [] = ustr ''0.0.0''"
| "scan_build_flags (flag # rest) =
     (if contains (ustr ''FIRMWARE_VERSION'') flag
      then (case re_search_version flag of Some g \<Rightarrow> g | None \<Rightarrow> scan_build_flags rest)
      else scan_build_flags rest)"

definition get_firmware_version :: "build_env \<Rightarrow> str" where
  "get_firmware_version env =
     (case GetProjectOption (opt_custom_firmware_version env) None Some of
        Some version \<Rightarrow> if version \<noteq> [] then version else scan_build_flags (env_BUILD_FLAGS env)
      | None \<Rightarrow> scan_build_flags (env_BUILD_FLAGS env))"

subsection \<open>\<open>deploy_firmware\<close>\<close>

text \<open>
  \<open>str.strip\<close> and \<open>str.lower\<close>. The white space of \<open>str.isspace\<close> is listed in full.
  \<open>py_lower\<close> follows Python on the code points below 256 and leaves the others alone;
  no code point above 255 has a lower case made of the letters \<open>o\<close>, \<open>t\<close> and \<open>a\<close>, so
  the comparison with \<open>"ota"\<close> comes out as in Python.
\<close>

definition py_isspace :: "nat \<Rightarrow> bool" where
  "py_isspace c = ((9 \<le> c \<and> c \<le> 13) \<or> (28 \<le> c \<and> c \<le> 32) \<or> c = 133 \<or> c = 160
     \<or> c = 5760 \<or> (8192 \<le> c \<and> c \<le> 8202) \<or> c = 8232 \<or> c = 8233 \<or> c = 8239
     \<or> c = 8287 \<or> c = 12288)"

definition py_strip :: "str \<Rightarrow> str" where
  "py_strip s = rev (dropWhile py_isspace (rev (dropWhile py_isspace s)))"

definition lower_char :: "nat \<Rightarrow> nat" where
  "lower_char c = (if (65 \<le> c \<and> c \<le> 90) \<or> (192 \<le> c \<and> c \<le> 222 \<and> c \<noteq> 215) then c + 32 else c)"

definition py_lower :: "str \<Rightarrow> str" where
  "py_lower s = map lower_char s"

text \<open>
  The three files the script touches: the built \<open>$BUILD_DIR/firmware.bin\<close> and, in
  \<open>$PROJECT_DIR/ota/firmware\<close>, the staged copy and \<open>manifest.json\<close>. \<open>None\<close> is a file
  that does not exist. File operations on existing paths are taken to succeed.
\<close>

record client_fs =
  built_firmware :: "bytes option"
  deploy_dir_exists :: bool
  staged_firmware :: "bytes option"
  staged_manifest :: "str option"

definition resolve_flash_method :: "os_environ \<Rightarrow> build_env \<Rightarrow> str" where
  "resolve_flash_method os env =
     py_lower (py_strip (getenv (os_FLASH_METHOD os)
        (py_or (GetProjectOption (opt_flash_method env) (ustr ''serial'') id) (ustr ''serial''))))"

definition resolve_server_url :: "os_environ \<Rightarrow> build_env \<Rightarrow> str" where
  "resolve_server_url os env =
     py_or (GetProjectOption (opt_ota_server_url env) [] id) (getenv (os_OTA_SERVER_URL os) [])"

text \<open>
  \<open>md5hex\<close> is \<open>hashlib.md5(_).hexdigest()\<close> and \<open>now\<close> is
  \<open>datetime.utcnow().isoformat()\<close>; \<open>has_requests\<close> is the module's \<open>HAS_REQUESTS\<close>.
  The result is the events of the run and the files after it.
\<close>

definition deploy_firmware ::
  "(bytes \<Rightarrow> str) \<Rightarrow> str \<Rightarrow> bool \<Rightarrow> net \<Rightarrow> os_environ \<Rightarrow> build_env \<Rightarrow> client_fs
     \<Rightarrow> event list \<times> client_fs" where
  "deploy_firmware md5hex now has_requests w os env fs =
     (let firmware_path = env_BUILD_DIR env @ ustr ''/firmware.bin'' in
      case built_firmware fs of
        None \<Rightarrow> ([Print (LogFirmwareNotFound firmware_path)], fs)
      | Some firmware_data \<Rightarrow>
         (let fs1 = fs\<lparr>deploy_dir_exists := True\<rparr>;
              version = get_firmware_version env;
              board = (case env_BOARD env of None \<Rightarrow> ustr ''unknown'' | Some b \<Rightarrow> b);
              flash_method = resolve_flash_method os env;
              fs2 = fs1\<lparr>staged_firmware := Some firmware_data\<rparr>;
              md5_hash = md5hex firmware_data;
              file_size = int (length firmware_data);
              manifest = \<lparr>m_version = version, m_file = ustr ''firmware.bin'',
                          m_md5 = md5_hash, m_size = file_size, m_board = board,
                          m_timestamp = now @ ustr ''Z''\<rparr>;
              fs3 = fs2\<lparr>staged_manifest := Some (json_dumps (manifest_dict manifest))\<rparr>;
              head = [Print LogRule, Print (LogBanner flash_method), Print LogRule,
                      Print (LogVersion version), Print (LogBoard board),
                      Print (LogSize file_size), Print (LogMD5 md5_hash)];
              upload =
                (if flash_method = ustr ''ota''
                 then (let server_url = resolve_server_url os env in
                       if server_url \<noteq> []
                       then fst (post_firmware_to_server has_requests w (built_firmware fs3)
                                   manifest server_url)
                       else [Print LogNoUrl])
                 else [])
          in (head @ upload @ [Print LogRule], fs3)))"

text \<open>The URLs of the upload POSTs of a run, in order.\<close>

fun post_urls :: "event list \<Rightarrow> str list" where
  "post_urls [] = []"
| "post_urls (HttpPost u d f # es) = u # post_urls es"
| "post_urls (e # es) = post_urls es"

subsection \<open>Reading the version pattern\<close>

text \<open>
  What \<open>re.search(pattern, flag).group(1)\<close> is, said without the matcher. The pattern
  matches at the start of \<open>t\<close> with value \<open>v\<close> when \<open>t\<close> is \<open>FIRMWARE_VERSION\<close>, then one
  or more of \<open>=\<close>, backslash and double quote, then \<open>v\<close>, which is a non-empty run of
  digits and dots that no digit or dot follows. The matched value of a flag is the value
  at the leftmost position of the flag where the pattern matches.
\<close>

definition matches_here :: "str \<Rightarrow> str \<Rightarrow> bool" where
  "matches_here t v =
     (\<exists>seps rest. t = ustr ''FIRMWARE_VERSION'' @ seps @ v @ rest
        \<and> seps \<noteq> [] \<and> list_all is_sep seps \<and> v \<noteq> [] \<and> list_all is_verchar v
        \<and> (case rest of [] \<Rightarrow> True | c # _ \<Rightarrow> \<not> is_verchar c))"

definition version_match :: "str \<Rightarrow> str \<Rightarrow> bool" where
  "version_match flag v =
     (\<exists>i \<le> length flag. matches_here (drop i flag) v
        \<and> (\<forall>j < i. \<forall>x. \<not> matches_here (drop j flag) x))"

text \<open>Two parts of the pattern, named for the proofs: the group at the end, matched
  greedily, and the pattern from the optional quote on.\<close>

definition version_tail :: "str \<Rightarrow> str option" where
  "version_tail r = (case r of [] \<Rightarrow> None
      | c # cs \<Rightarrow> if is_verchar c then Some (c # takeWhile is_verchar cs) else None)"

definition after_seps :: "str \<Rightarrow> str option" where
  "after_seps r = re_opt_char 34 r (\<lambda>r3. re_group_plus is_verchar r3 (\<lambda>g r4. Some g))"


definition demo_flag :: str where
  "demo_flag = ustr ''-DFIRMWARE_VERSION='' @ [92, 34] @ ustr ''1.4.2'' @ [92, 34]"

subsection \<open>Measuring a run\<close>

definition posts :: "event list \<Rightarrow> nat" where
  "posts es = length (filter is_post es)"


text \<open>An attempt that got a response whose status is neither 200 nor 201.\<close>

definition status_failure :: "post_outcome \<Rightarrow> bool" where
  "status_failure r = (case r of Response c _ \<Rightarrow> c \<noteq> 200 \<and> c \<noteq> 201 | _ \<Rightarrow> False)"

definition network_events :: "event list \<Rightarrow> event list" where
  "network_events es = filter is_network es"

definition demo_md5hex :: "bytes \<Rightarrow> str" where
  "demo_md5hex b = ustr ''900150983cd24fb0d6963f7d28e17f72''"

definition demo_env :: build_env where
  "demo_env = \<lparr>env_BUILD_DIR = ustr ''.pio/build/esp32dev'', env_PROJECT_DIR = Some (ustr ''.''),
     env_BOARD = Some (ustr ''esp32dev''), env_BUILD_FLAGS = [],
     opt_custom_firmware_version = Some (ustr ''1.2.0''), opt_flash_method = Some (ustr ''ota''),
     opt_ota_server_url = Some (ustr ''http://10.0.0.5:8081/upload'')\<rparr>"

definition demo_fs :: client_fs where
  "demo_fs = \<lparr>built_firmware = Some ''abc'', deploy_dir_exists = False,
     staged_firmware = None, staged_manifest = None\<rparr>"

text \<open>Concrete values for the examples.\<close>

definition demo_manifest :: manifest where
  "demo_manifest = \<lparr>m_version = ustr ''1.2.0'', m_file = ustr ''firmware.bin'',
     m_md5 = ustr ''0cc175b9c0f1b6a831c399e269772661'', m_size = 1,
     m_board = ustr ''esp32dev'', m_timestamp = ustr ''2024-01-01T00:00:00Z''\<rparr>"

definition demo_url :: str where
  "demo_url = ustr ''http://10.0.0.5:8081/upload''"

definition demo_net :: "(nat \<Rightarrow> post_outcome) \<Rightarrow> net" where
  "demo_net p = \<lparr>probe = ProbeOK, health = HealthStatus 200, post = p\<rparr>"


section \<open>Upload server: \<open>ota-upload/server.py\<close>\<close>

text \<open>
  A request as \<open>Handler\<close> sees it. \<open>content_type\<close> is \<open>self.headers.get("Content-Type", "")\<close>.
  \<open>content_length\<close> is \<open>int(self.headers.get("Content-Length", 0))\<close>, with \<open>None\<close> when
  \<open>int\<close> raises \<open>ValueError\<close>. \<open>rfile\<close> holds the bytes that follow the headers on the
  connection, up to where the client ends its side of it.
\<close>

record request =
  path :: str
  content_type :: str
  content_length :: "int option"
  rfile :: bytes

datatype exn = ValueError | IndexError | UnicodeEncodeError | UnicodeDecodeError | OverflowError

text \<open>
  \<open>Json code data\<close> is \<open>self._json(code, data)\<close>; \<open>ServerError e\<close> is the reply of the
  \<open>except Exception as e\<close> clause, \<open>self._json(500, {"error": str(e)})\<close>.
\<close>

datatype response = Json int "(str \<times> json) list" | ServerError exn

definition status_of :: "response \<Rightarrow> int" where
  "status_of r = (case r of Json code _ \<Rightarrow> code | ServerError _ \<Rightarrow> 500)"

text \<open>The two files of \<open>FIRMWARE_DIR\<close>; the directory exists (\<open>os.makedirs\<close> at start) and
  writing to it is taken to succeed.\<close>

record server_fs =
  firmware_bin :: "bytes option"
  manifest_json :: "str option"

definition CRLF :: bytes where
  "CRLF = [CHR 0x0D, CHR 0x0A]"

definition name_attr :: "string \<Rightarrow> bytes" where
  "name_attr field = ''name='' @ [CHR 0x22] @ field @ [CHR 0x22]"

definition do_GET :: "str \<Rightarrow> response" where
  "do_GET p =
     (if p = ustr ''/health'' then Json 200 [(ustr ''status'', JStr (ustr ''ok''))]
      else Json 404 [(ustr ''error'', JStr (ustr ''not found''))])"

text \<open>\<open>content_type.split("boundary=")[1].encode()\<close>\<close>

definition boundary_of :: "str \<Rightarrow> exn + bytes" where
  "boundary_of ct =
     (case py_split (ustr ''boundary='') ct of
        x # y # _ \<Rightarrow> (case utf8_encode y of None \<Rightarrow> Inl UnicodeEncodeError | Some b \<Rightarrow> Inr b)
      | _ \<Rightarrow> Inl IndexError)"

text \<open>
  \<open>self.rfile.read(content_length)\<close> on the buffered reader of the connection: a length
  below \<open>-1\<close> raises \<open>ValueError\<close>, one above \<open>sys.maxsize\<close> (of a 64-bit build) raises
  \<open>OverflowError\<close>, \<open>-1\<close> reads to the end, and any other length reads that many bytes,
  or all there are when there are fewer. The machine is taken to have the memory for a
  read whose length fits.
\<close>

definition rfile_read :: "bytes \<Rightarrow> int \<Rightarrow> exn + bytes" where
  "rfile_read f n =
     (if n < - 1 then Inl ValueError
      else if 9223372036854775807 < n then Inl OverflowError
      else if n = - 1 then Inr f
      else Inr (take (nat n) f))"

text \<open>\<open>idx = part.find(b"\r\n\r\n")\<close> and, if \<open>idx > 0\<close>,
  \<open>part[idx + 4:].rstrip(b"\r\n--")\<close>.\<close>

definition payload_of :: "bytes \<Rightarrow> bytes option" where
  "payload_of part =
     (let idx = py_find (CRLF @ CRLF) part in
      if idx > 0 then Some (py_rstrip (CRLF @ ''--'') (drop (nat (idx + 4)) part)) else None)"

text \<open>The inner loop \<open>for field in ["version", "board"]\<close> on one part.\<close>

fun set_fields :: "string list \<Rightarrow> bytes \<Rightarrow> (str \<rightharpoonup> str) \<Rightarrow> exn + (str \<rightharpoonup> str)" where
  "set_fields [] part form = Inr form"
| "set_fields (field # flds) part form =
     (if contains (name_attr field) part
      then (case payload_of part of
              None \<Rightarrow> set_fields flds part form
            | Some p \<Rightarrow>
               (case utf8_decode p of
                  None \<Rightarrow> Inl UnicodeDecodeError
                | Some v \<Rightarrow> set_fields flds part (form(ustr field \<mapsto> v))))
      else set_fields flds part form)"

text \<open>The loop \<open>for part in parts\<close>, on the pair of \<open>firmware_data\<close> and \<open>form_data\<close>.\<close>

fun parse_parts ::
  "bytes list \<Rightarrow> bytes option \<times> (str \<rightharpoonup> str) \<Rightarrow> exn + bytes option \<times> (str \<rightharpoonup> str)" where
  "parse_parts [] st = Inr st"
| "parse_parts (part # parts) (firmware_data, form) =
     (if contains (name_attr ''firmware'') part
      then parse_parts parts
             (case payload_of part of None \<Rightarrow> firmware_data | Some p \<Rightarrow> Some p, form)
      else (case set_fields [''version'', ''board''] part form of
              Inl e \<Rightarrow> Inl e
            | Inr form' \<Rightarrow> parse_parts parts (firmware_data, form')))"

definition form_get :: "(str \<rightharpoonup> str) \<Rightarrow> str \<Rightarrow> str \<Rightarrow> str" where
  "form_get form k dflt = (case form k of None \<Rightarrow> dflt | Some v \<Rightarrow> v)"

text \<open>
  \<open>Handler.do_POST\<close>: the reply and the files after the request. \<open>md5hex\<close> and \<open>now\<close> are
  as in the client. The log lines of the server are left out.
\<close>

definition do_POST ::
  "(bytes \<Rightarrow> str) \<Rightarrow> str \<Rightarrow> request \<Rightarrow> server_fs \<Rightarrow> response \<times> server_fs" where
  "do_POST md5hex now req fs =
     (if path req \<noteq> ustr ''/upload''
      then (Json 404 [(ustr ''error'', JStr (ustr ''not found''))], fs)
      else
       (case content_length req of
          None \<Rightarrow> (ServerError ValueError, fs)
        | Some n \<Rightarrow>
           (case boundary_of (content_type req) of
              Inl e \<Rightarrow> (ServerError e, fs)
            | Inr boundary \<Rightarrow>
               (case rfile_read (rfile req) n of
                  Inl e \<Rightarrow> (ServerError e, fs)
                | Inr body \<Rightarrow>
                   (case parse_parts (py_split (''--'' @ boundary) body) (None, Map.empty) of
                      Inl e \<Rightarrow> (ServerError e, fs)
                    | Inr (firmware_data, form) \<Rightarrow>
                       (case firmware_data of
                          None \<Rightarrow> (Json 400 [(ustr ''error'', JStr (ustr ''no firmware''))], fs)
                        | Some data \<Rightarrow>
                           if data = []
                           then (Json 400 [(ustr ''error'', JStr (ustr ''no firmware''))], fs)
                           else
                            (let md5 = md5hex data;
                                 fs1 = fs\<lparr>firmware_bin := Some data\<rparr>;
                                 manifest =
                                   \<lparr>m_version = form_get form (ustr ''version'') (ustr ''0.0.0''),
                                    m_file = ustr ''firmware.bin'', m_md5 = md5,
                                    m_size = int (length data),
                                    m_board = form_get form (ustr ''board'') (ustr ''unknown''),
                                    m_timestamp = now @ ustr ''Z''\<rparr>;
                                 fs2 = fs1\<lparr>manifest_json :=
                                             Some (json_dumps (manifest_dict manifest))\<rparr>
                             in (Json 200 [(ustr ''status'', JStr (ustr ''ok'')),
                                           (ustr ''md5'', JStr md5),
                                           (ustr ''size'', JInt (int (length data)))],
                                 fs2))))))))"

text \<open>
  The \<open>multipart/form-data\<close> request that \<open>requests.post(url, files=files, data=data)\<close>
  sends for the client: one part for each form field, then the file part, then the
  closing delimiter.
\<close>

definition multipart_field :: "bytes \<Rightarrow> string \<Rightarrow> bytes \<Rightarrow> bytes" where
  "multipart_field boundary name val =
     ''--'' @ boundary @ CRLF @ ''Content-Disposition: form-data; '' @ name_attr name
       @ CRLF @ CRLF @ val @ CRLF"

definition multipart_file :: "bytes \<Rightarrow> bytes \<Rightarrow> bytes" where
  "multipart_file boundary data =
     ''--'' @ boundary @ CRLF @ ''Content-Disposition: form-data; '' @ name_attr ''firmware''
       @ ''; filename='' @ [CHR 0x22] @ ''firmware.bin'' @ [CHR 0x22] @ CRLF
       @ ''Content-Type: application/octet-stream'' @ CRLF @ CRLF @ data @ CRLF"

definition multipart_body :: "bytes \<Rightarrow> (string \<times> bytes) list \<Rightarrow> bytes option \<Rightarrow> bytes" where
  "multipart_body boundary flds fw =
     concat (map (\<lambda>(k, v). multipart_field boundary k v) flds)
       @ (case fw of None \<Rightarrow> [] | Some data \<Rightarrow> multipart_file boundary data)
       @ ''--'' @ boundary @ ''--'' @ CRLF"

definition upload_request :: "string \<Rightarrow> (string \<times> bytes) list \<Rightarrow> bytes option \<Rightarrow> request" where
  "upload_request boundary flds fw =
     \<lparr>path = ustr ''/upload'',
      content_type = ustr (''multipart/form-data; boundary='' @ boundary),
      content_length = Some (int (length (multipart_body boundary flds fw))),
      rfile = multipart_body boundary flds fw\<rparr>"

subsection \<open>Requests without firmware\<close>



text \<open>Concrete requests for the examples: the form fields of the client, files staged
  by an earlier upload, and a request whose only field is a file field named \<open>file\<close>,
  with the file name \<open>firmware\<close> and the content \<open>XY\<close>.\<close>

definition demo_fields :: "(string \<times> bytes) list" where
  "demo_fields = [(''version'', ''1.2.0''), (''md5'', ''0cc1''), (''size'', ''3''), (''board'', ''esp32dev'')]"





section \<open>Properties of the upload client\<close>

lemma posts_simps:
  "posts [] = 0"
  "posts (e # es) = (if is_post e then 1 else 0) + posts es"
  "posts (es @ fs) = posts es + posts fs"
  by (simp_all add: posts_def)

lemma is_post_simps:
  "is_post (HttpPost u d f)" "\<not> is_post (Print l)" "\<not> is_post (Sleep n)"
  "\<not> is_post (SocketConnect u)" "\<not> is_post (HttpGet u)"
  by (simp_all add: is_post_def)


lemma attempts_list: "[1 ..< max_retries + 1] = [1, 2, 3]"
  by (simp add: max_retries_def upt_rec)

lemma fst_prepend: "fst (prepend es r) = es @ fst r"
  by (simp add: prepend_def)

lemma snd_prepend: "snd (prepend es r) = snd r"
  by (simp add: prepend_def)

lemma posts_socket_test: "posts (socket_test w u) = 0"
  by (simp add: socket_test_def posts_simps is_post_simps split: probe_outcome.splits)

lemma posts_health_test: "posts (health_test w u) = 0"
  by (simp add: health_test_def posts_simps is_post_simps Let_def split: health_outcome.splits)

lemma snd_post_firmware_to_server:
  "snd (post_firmware_to_server hr w fw m url) = (hr \<and> snd (upload_loop w fw m url [1, 2, 3]))"
  unfolding post_firmware_to_server_def attempts_list by (simp add: snd_prepend)

lemma posts_post_firmware_to_server:
  "posts (fst (post_firmware_to_server True w fw m url))
     = posts (fst (upload_loop w fw m url [1, 2, 3]))"
  unfolding post_firmware_to_server_def attempts_list
  by (simp add: fst_prepend posts_socket_test posts_health_test posts_simps is_post_simps)

subsection \<open>Retry policy\<close>

text \<open>
  Claim C2. With \<open>requests\<close> installed and the firmware file readable: when attempts 1 and
  2 raise a timeout and attempt 3 answers 200, \<open>post_firmware_to_server\<close> returns \<open>True\<close>
  and has made exactly three POSTs. When each of the three attempts ends in a timeout, a
  connection error or a status outside 200..299, it returns \<open>False\<close>; the function has
  no path on which an exception of an attempt leaves it, its result is always a Boolean.
\<close>

theorem post_retry_policy:
  "(post w 1 = Timeout \<and> post w 2 = Timeout \<and> post w 3 = Response 200 txt \<longrightarrow>
      snd (post_firmware_to_server True w (Some d) m url) = True
      \<and> posts (fst (post_firmware_to_server True w (Some d) m url)) = 3)
   \<and> ((\<forall>a \<in> {1, 2, 3}. post w a = Timeout \<or> (\<exists>e. post w a = ConnectionError e)
          \<or> (\<exists>c t. post w a = Response c t \<and> (c < 200 \<or> 300 \<le> c))) \<longrightarrow>
      snd (post_firmware_to_server hr w fw m url) = False)"
proof (intro conjI impI)
  assume a: "post w 1 = Timeout \<and> post w 2 = Timeout \<and> post w 3 = Response 200 txt"
  then show "snd (post_firmware_to_server True w (Some d) m url) = True"
    by (simp add: snd_post_firmware_to_server snd_prepend max_retries_def Let_def)
  from a show "posts (fst (post_firmware_to_server True w (Some d) m url)) = 3"
    by (simp add: posts_post_firmware_to_server max_retries_def Let_def fst_prepend
          posts_simps is_post_simps)
next
  assume "\<forall>a \<in> {1, 2, 3}. post w a = Timeout \<or> (\<exists>e. post w a = ConnectionError e)
          \<or> (\<exists>c t. post w a = Response c t \<and> (c < 200 \<or> 300 \<le> c))"
  then have 1: "post w 1 = Timeout \<or> (\<exists>e. post w 1 = ConnectionError e)
          \<or> (\<exists>c t. post w 1 = Response c t \<and> (c < 200 \<or> 300 \<le> c))"
    and 2: "post w 2 = Timeout \<or> (\<exists>e. post w 2 = ConnectionError e)
          \<or> (\<exists>c t. post w 2 = Response c t \<and> (c < 200 \<or> 300 \<le> c))"
    and 3: "post w 3 = Timeout \<or> (\<exists>e. post w 3 = ConnectionError e)
          \<or> (\<exists>c t. post w 3 = Response c t \<and> (c < 200 \<or> 300 \<le> c))"
    by simp_all
  show "snd (post_firmware_to_server hr w fw m url) = False"
  proof (cases fw)
    case None
    then show ?thesis
      by (simp add: snd_post_firmware_to_server)
  next
    case (Some d)
    from 1 2 3 show ?thesis unfolding Some
      by (auto simp add: snd_post_firmware_to_server snd_prepend max_retries_def Let_def)
  qed
qed

theorem post_retry_policy_witness:
  "snd (post_firmware_to_server True
          (demo_net (\<lambda>n. if n = 3 then Response 200 [] else Timeout))
          (Some ''AB'') demo_manifest demo_url) = True
   \<and> posts (fst (post_firmware_to_server True
          (demo_net (\<lambda>n. if n = 3 then Response 200 [] else Timeout))
          (Some ''AB'') demo_manifest demo_url)) = 3
   \<and> snd (post_firmware_to_server True
          (demo_net (\<lambda>n. if n = 2 then Response 503 [] else Timeout))
          (Some ''AB'') demo_manifest demo_url) = False"
  using post_retry_policy [of "demo_net (\<lambda>n. if n = 3 then Response 200 [] else Timeout)"
          "[]" "''AB''" demo_manifest demo_url]
        post_retry_policy [of "demo_net (\<lambda>n. if n = 2 then Response 503 [] else Timeout)"
          "[]" "''AB''" demo_manifest demo_url True "Some ''AB''"]
  by (simp add: demo_net_def)

subsection \<open>Status codes\<close>

text \<open>
  Claim C6. Let attempt \<open>k\<close> be reached because every earlier attempt got a status other
  than 200 and 201, and let attempt \<open>k\<close> get status \<open>c\<close>. If \<open>c\<close> is 200 or 201 the upload
  succeeds there, after \<open>k\<close> POSTs. Otherwise the attempt has failed: while attempts
  remain another POST follows, and after the last attempt the function returns \<open>False\<close>.
\<close>

theorem status_200_201_is_success:
  assumes "k \<in> {1, 2, 3}"
    and "\<forall>j \<in> {1 ..< k}. status_failure (post w j)"
    and "post w k = Response c t"
  shows "(c = 200 \<or> c = 201 \<longrightarrow>
            snd (post_firmware_to_server True w (Some d) m url) = True
            \<and> posts (fst (post_firmware_to_server True w (Some d) m url)) = k)
       \<and> (c \<noteq> 200 \<and> c \<noteq> 201 \<and> k < max_retries \<longrightarrow>
            k < posts (fst (post_firmware_to_server True w (Some d) m url)))
       \<and> (c \<noteq> 200 \<and> c \<noteq> 201 \<and> k = max_retries \<longrightarrow>
            snd (post_firmware_to_server True w (Some d) m url) = False
            \<and> posts (fst (post_firmware_to_server True w (Some d) m url)) = max_retries)"
proof -
  from assms(1) consider "k = 1" | "k = 2" | "k = 3" by auto
  then show ?thesis
  proof cases
    case 1
    with assms(3) show ?thesis
      by (cases "post w 2"; cases "post w 3")
         (simp_all add: snd_post_firmware_to_server posts_post_firmware_to_server
            snd_prepend fst_prepend posts_simps is_post_simps max_retries_def Let_def)
  next
    case 2
    with assms(2) have "status_failure (post w 1)" by simp
    with 2 assms(3) show ?thesis
      by (cases "post w 1"; cases "post w 3")
         (simp_all add: snd_post_firmware_to_server posts_post_firmware_to_server
            status_failure_def snd_prepend fst_prepend posts_simps is_post_simps
            max_retries_def Let_def)
  next
    case 3
    with assms(2) have "status_failure (post w 1)" "status_failure (post w 2)" by simp_all
    with 3 assms(3) show ?thesis
      by (cases "post w 1"; cases "post w 2")
         (simp_all add: snd_post_firmware_to_server posts_post_firmware_to_server
            status_failure_def snd_prepend fst_prepend posts_simps is_post_simps
            max_retries_def Let_def)
  qed
qed

theorem status_200_201_is_success_witness:
  "snd (post_firmware_to_server True
          (demo_net (\<lambda>n. if n = 2 then Response 201 [] else Response 500 []))
          (Some ''AB'') demo_manifest demo_url) = True
   \<and> posts (fst (post_firmware_to_server True
          (demo_net (\<lambda>n. if n = 2 then Response 201 [] else Response 500 []))
          (Some ''AB'') demo_manifest demo_url)) = 2
   \<and> snd (post_firmware_to_server True (demo_net (\<lambda>n. Response 204 []))
          (Some ''AB'') demo_manifest demo_url) = False
   \<and> posts (fst (post_firmware_to_server True (demo_net (\<lambda>n. Response 204 []))
          (Some ''AB'') demo_manifest demo_url)) = 3"
proof -
  have k2: "(2::nat) \<in> {1, 2, 3}" and k3: "(3::nat) \<in> {1, 2, 3}" by simp_all
  have p2: "\<forall>j \<in> {1 ..< 2}.
      status_failure (post (demo_net (\<lambda>n. if n = 2 then Response 201 [] else Response 500 [])) j)"
    by (simp add: demo_net_def status_failure_def)
  have p3: "\<forall>j \<in> {1 ..< 3}. status_failure (post (demo_net (\<lambda>n. Response 204 [])) j)"
    by (simp add: demo_net_def status_failure_def)
  have r2: "post (demo_net (\<lambda>n. if n = 2 then Response 201 [] else Response 500 [])) 2
             = Response 201 []"
    by (simp add: demo_net_def)
  have r3: "post (demo_net (\<lambda>n. Response 204 [])) 3 = Response 204 []"
    by (simp add: demo_net_def)
  show ?thesis
    using status_200_201_is_success [OF k2 p2 r2, of "''AB''" demo_manifest demo_url]
          status_200_201_is_success [OF k3 p3 r3, of "''AB''" demo_manifest demo_url]
    by (simp add: max_retries_def)
qed

subsection \<open>Exceptions during an attempt\<close>



subsection \<open>\<open>deploy_firmware\<close>\<close>

lemma post_urls_append: "post_urls (es @ fs) = post_urls es @ post_urls fs"
  by (induction es rule: post_urls.induct) simp_all

lemma network_events_simps:
  "network_events [] = []"
  "network_events (Print l # es) = network_events es"
  "network_events (Sleep n # es) = network_events es"
  "network_events (es @ fs) = network_events es @ network_events fs"
  by (simp_all add: network_events_def is_network_def)

lemma post_urls_socket_test: "post_urls (socket_test w u) = []"
  by (simp add: socket_test_def split: probe_outcome.splits)

lemma post_urls_health_test: "post_urls (health_test w u) = []"
  by (simp add: health_test_def Let_def split: health_outcome.splits)

lemma post_urls_upload_loop: "set (post_urls (fst (upload_loop w fw m url as))) \<subseteq> {url}"
  by (induction as)
     (auto simp add: fst_prepend post_urls_append Let_def
           split: option.splits post_outcome.splits if_splits)

lemma post_urls_upload_loop_first:
  "post_urls (fst (upload_loop w (Some d) m url (a # as))) \<noteq> []"
  by (auto simp add: fst_prepend post_urls_append Let_def
           split: option.splits post_outcome.splits if_splits)

lemma post_urls_post_firmware_to_server:
  "set (post_urls (fst (post_firmware_to_server hr w fw m url))) \<subseteq> {url}"
  using post_urls_upload_loop [of w fw m url "[1 ..< max_retries + 1]"]
  by (simp add: post_firmware_to_server_def fst_prepend post_urls_append
        post_urls_socket_test post_urls_health_test)

lemma post_urls_post_firmware_to_server_nonempty:
  "post_urls (fst (post_firmware_to_server True w (Some d) m url)) \<noteq> []"
  unfolding post_firmware_to_server_def attempts_list
  using post_urls_upload_loop_first [of w d m url 1 "[2, 3]"]
  by (simp add: fst_prepend post_urls_append post_urls_socket_test post_urls_health_test)

lemma default_flash_method:
  "os_FLASH_METHOD os = None \<Longrightarrow> opt_flash_method env = None
     \<Longrightarrow> resolve_flash_method os env = ustr ''serial''"
  by (simp add: resolve_flash_method_def getenv_def GetProjectOption_def py_or_def ustr_def
        py_strip_def py_lower_def py_isspace_def lower_char_def)

lemma serial_not_ota: "ustr ''serial'' \<noteq> ustr ''ota''"
  by (simp add: ustr_def)

text \<open>
  Claim C10. When the built \<open>firmware.bin\<close> does not exist, \<open>deploy_firmware\<close> returns
  after its one log line: the files are as before (no staging directory, copy or
  manifest is written) and the run has no network event.
\<close>

theorem missing_firmware_is_logged_only:
  assumes "built_firmware fs = None"
  shows "snd (deploy_firmware md5hex now hr w os env fs) = fs
       \<and> fst (deploy_firmware md5hex now hr w os env fs)
           = [Print (LogFirmwareNotFound (env_BUILD_DIR env @ ustr ''/firmware.bin''))]
       \<and> network_events (fst (deploy_firmware md5hex now hr w os env fs)) = []"
  using assms by (simp add: deploy_firmware_def Let_def network_events_simps)

theorem missing_firmware_is_logged_only_witness:
  "snd (deploy_firmware demo_md5hex (ustr ''2024-01-01T00:00:00'') True
         (demo_net (\<lambda>n. Response 200 []))
         \<lparr>os_FLASH_METHOD = Some (ustr ''ota''), os_OTA_SERVER_URL = None\<rparr> demo_env
         (demo_fs\<lparr>built_firmware := None\<rparr>))
     = demo_fs\<lparr>built_firmware := None\<rparr>
   \<and> network_events (fst (deploy_firmware demo_md5hex (ustr ''2024-01-01T00:00:00'') True
         (demo_net (\<lambda>n. Response 200 []))
         \<lparr>os_FLASH_METHOD = Some (ustr ''ota''), os_OTA_SERVER_URL = None\<rparr> demo_env
         (demo_fs\<lparr>built_firmware := None\<rparr>))) = []"
  using missing_firmware_is_logged_only [of "demo_fs\<lparr>built_firmware := None\<rparr>" demo_md5hex
          "ustr ''2024-01-01T00:00:00''" True "demo_net (\<lambda>n. Response 200 [])"
          "\<lparr>os_FLASH_METHOD = Some (ustr ''ota''), os_OTA_SERVER_URL = None\<rparr>" demo_env]
  by (simp add: demo_fs_def network_events_simps)

text \<open>
  Claim C7. In a run that resolves \<open>flash_method\<close> (the built firmware exists) to a value
  other than \<open>"ota"\<close>, or with neither \<open>FLASH_METHOD\<close> nor the project option set (the
  default \<open>"serial"\<close>), there is no network event: no socket probe, no health GET, no upload
  POST. The staged copy holds the built firmware and \<open>manifest.json\<close> holds the manifest
  of that firmware.
\<close>

theorem serial_mode_stages_without_network:
  assumes "built_firmware fs = Some data"
    and "resolve_flash_method os env \<noteq> ustr ''ota''
         \<or> (os_FLASH_METHOD os = None \<and> opt_flash_method env = None)"
  shows "network_events (fst (deploy_firmware md5hex now hr w os env fs)) = []
       \<and> staged_firmware (snd (deploy_firmware md5hex now hr w os env fs)) = Some data
       \<and> staged_manifest (snd (deploy_firmware md5hex now hr w os env fs))
           = Some (json_dumps (manifest_dict
               \<lparr>m_version = get_firmware_version env, m_file = ustr ''firmware.bin'',
                m_md5 = md5hex data, m_size = int (length data),
                m_board = (case env_BOARD env of None \<Rightarrow> ustr ''unknown'' | Some b \<Rightarrow> b),
                m_timestamp = now @ ustr ''Z''\<rparr>))"
proof -
  from assms(2) have "resolve_flash_method os env \<noteq> ustr ''ota''"
    using default_flash_method [of os env] serial_not_ota by auto
  with assms(1) show ?thesis
    by (simp add: deploy_firmware_def Let_def network_events_simps)
qed

theorem serial_mode_stages_without_network_witness:
  "network_events (fst (deploy_firmware demo_md5hex (ustr ''2024-01-01T00:00:00'') True
       (demo_net (\<lambda>n. Response 200 []))
       \<lparr>os_FLASH_METHOD = None, os_OTA_SERVER_URL = None\<rparr>
       (demo_env\<lparr>opt_flash_method := None\<rparr>) demo_fs)) = []
   \<and> staged_firmware (snd (deploy_firmware demo_md5hex (ustr ''2024-01-01T00:00:00'') True
       (demo_net (\<lambda>n. Response 200 []))
       \<lparr>os_FLASH_METHOD = None, os_OTA_SERVER_URL = None\<rparr>
       (demo_env\<lparr>opt_flash_method := None\<rparr>) demo_fs)) = Some ''abc''"
  using serial_mode_stages_without_network [of demo_fs "''abc''"
          "\<lparr>os_FLASH_METHOD = None, os_OTA_SERVER_URL = None\<rparr>"
          "demo_env\<lparr>opt_flash_method := None\<rparr>" demo_md5hex
          "ustr ''2024-01-01T00:00:00''" True "demo_net (\<lambda>n. Response 200 [])"]
  by (simp add: demo_fs_def demo_env_def)

text \<open>
  Claim C5, as the code has it. The script reads
  \<open>env.GetProjectOption("ota_server_url", "") or os.getenv("OTA_SERVER_URL", "")\<close>: the
  project option comes first and the environment variable is the fallback. With the project
  option \<open>http://10.0.0.5:8081/upload\<close> and \<open>OTA_SERVER_URL=http://192.168.1.9:8081/upload\<close>
  the upload goes to the project option's URL, not to the variable's.
\<close>

theorem env_url_does_not_override_counterexample:
  "post_urls (fst (deploy_firmware demo_md5hex (ustr ''2024-01-01T00:00:00'') True
       (demo_net (\<lambda>n. Response 200 []))
       \<lparr>os_FLASH_METHOD = None,
        os_OTA_SERVER_URL = Some (ustr ''http://192.168.1.9:8081/upload'')\<rparr>
       demo_env demo_fs))
     = [ustr ''http://10.0.0.5:8081/upload'']
   \<and> ustr ''http://10.0.0.5:8081/upload'' \<noteq> ustr ''http://192.168.1.9:8081/upload''"
  unfolding deploy_firmware_def post_firmware_to_server_def attempts_list
  by (simp add: Let_def demo_env_def demo_fs_def post_urls_append
        resolve_flash_method_def resolve_server_url_def getenv_def GetProjectOption_def
        py_or_def ustr_def py_strip_def py_lower_def py_isspace_def lower_char_def
        fst_prepend post_urls_socket_test post_urls_health_test demo_net_def)

text \<open>
  Claim C5, amended. In OTA mode with \<open>requests\<close> installed, every upload POST goes to the
  \<open>ota_server_url\<close> project option when that is set and not empty, whatever
  \<open>OTA_SERVER_URL\<close> holds; it goes to \<open>OTA_SERVER_URL\<close> only when the project option is
  unset or empty.
\<close>

theorem upload_target_precedence:
  assumes "built_firmware fs = Some data"
    and "resolve_flash_method os env = ustr ''ota''"
  shows "(opt_ota_server_url env = Some p \<and> p \<noteq> [] \<longrightarrow>
           set (post_urls (fst (deploy_firmware md5hex now True w os env fs))) = {p})
       \<and> ((opt_ota_server_url env = None \<or> opt_ota_server_url env = Some [])
            \<and> os_OTA_SERVER_URL os = Some u \<and> u \<noteq> [] \<longrightarrow>
           set (post_urls (fst (deploy_firmware md5hex now True w os env fs))) = {u})"
proof -
  have one: "set (post_urls (fst (post_firmware_to_server True w (Some data) m url))) = {url}"
    for m url
    using post_urls_post_firmware_to_server [of True w "Some data" m url]
          post_urls_post_firmware_to_server_nonempty [of w data m url]
    by (cases "post_urls (fst (post_firmware_to_server True w (Some data) m url))") auto
  show ?thesis
    using assms
    by (auto simp add: deploy_firmware_def Let_def post_urls_append one resolve_server_url_def
          py_or_def GetProjectOption_def getenv_def)
qed

theorem upload_target_precedence_witness:
  "set (post_urls (fst (deploy_firmware demo_md5hex (ustr ''2024-01-01T00:00:00'') True
       (demo_net (\<lambda>n. Response 200 []))
       \<lparr>os_FLASH_METHOD = None,
        os_OTA_SERVER_URL = Some (ustr ''http://192.168.1.9:8081/upload'')\<rparr>
       demo_env demo_fs)))
     = {ustr ''http://10.0.0.5:8081/upload''}
   \<and> set (post_urls (fst (deploy_firmware demo_md5hex (ustr ''2024-01-01T00:00:00'') True
       (demo_net (\<lambda>n. Response 200 []))
       \<lparr>os_FLASH_METHOD = None,
        os_OTA_SERVER_URL = Some (ustr ''http://192.168.1.9:8081/upload'')\<rparr>
       (demo_env\<lparr>opt_ota_server_url := None\<rparr>) demo_fs)))
     = {ustr ''http://192.168.1.9:8081/upload''}"
proof -
  have fw: "built_firmware demo_fs = Some ''abc''"
    by (simp add: demo_fs_def)
  have m1: "resolve_flash_method
      \<lparr>os_FLASH_METHOD = None,
       os_OTA_SERVER_URL = Some (ustr ''http://192.168.1.9:8081/upload'')\<rparr> demo_env
      = ustr ''ota''"
    by (simp add: resolve_flash_method_def getenv_def GetProjectOption_def py_or_def ustr_def
          py_strip_def py_lower_def py_isspace_def lower_char_def demo_env_def)
  have m2: "resolve_flash_method
      \<lparr>os_FLASH_METHOD = None,
       os_OTA_SERVER_URL = Some (ustr ''http://192.168.1.9:8081/upload'')\<rparr>
      (demo_env\<lparr>opt_ota_server_url := None\<rparr>) = ustr ''ota''"
    by (simp add: resolve_flash_method_def getenv_def GetProjectOption_def py_or_def ustr_def
          py_strip_def py_lower_def py_isspace_def lower_char_def demo_env_def)
  show ?thesis
    using upload_target_precedence [OF fw m1, of "ustr ''http://10.0.0.5:8081/upload''"
            demo_md5hex "ustr ''2024-01-01T00:00:00''" "demo_net (\<lambda>n. Response 200 [])" "[]"]
          upload_target_precedence [OF fw m2, of "[]"
            demo_md5hex "ustr ''2024-01-01T00:00:00''" "demo_net (\<lambda>n. Response 200 [])"
            "ustr ''http://192.168.1.9:8081/upload''"]
    by (simp add: demo_env_def ustr_def)
qed

subsection \<open>\<open>get_firmware_version\<close>\<close>

lemma verchar_not_sep: "is_verchar c \<Longrightarrow> \<not> is_sep c"
  by (auto simp add: is_verchar_def is_sep_def)

lemma re_group_star_greedy:
  "re_group_star P acc s (\<lambda>g r. Some g) = Some (rev acc @ takeWhile P s)"
  by (induction s arbitrary: acc) simp_all

lemma re_group_plus_greedy:
  "re_group_plus is_verchar r (\<lambda>g r. Some g) = version_tail r"
  by (simp add: re_group_plus_def version_tail_def re_group_star_greedy split: list.splits)

lemma after_seps_nonsep:
  "(r = [] \<or> \<not> is_sep (hd r)) \<Longrightarrow> after_seps r = version_tail r"
  by (cases r) (auto simp add: after_seps_def re_opt_char_def re_group_plus_greedy is_sep_def)

lemma after_seps_sep:
  "is_sep c \<Longrightarrow> after_seps (c # cs) = (if c = 34 then version_tail cs else None)"
  using verchar_not_sep [of c]
  by (auto simp add: after_seps_def re_opt_char_def re_group_plus_greedy version_tail_def
        split: option.splits)

lemma version_tail_sep: "is_sep c \<Longrightarrow> version_tail (c # cs) = None"
  using verchar_not_sep [of c] by (auto simp add: version_tail_def)

lemma version_tail_Some_dropWhile:
  "version_tail cs = Some g \<Longrightarrow> dropWhile is_sep cs = cs"
  by (cases cs) (auto simp add: version_tail_def verchar_not_sep split: if_splits)

lemma re_class_star_seps:
  "re_class_star is_sep s after_seps = version_tail (dropWhile is_sep s)"
proof (induction s)
  case Nil
  then show ?case by (simp add: after_seps_nonsep)
next
  case (Cons c cs)
  show ?case
  proof (cases "is_sep c")
    case False
    then show ?thesis by (simp add: after_seps_nonsep)
  next
    case True
    show ?thesis
    proof (cases "version_tail (dropWhile is_sep cs)")
      case (Some g)
      with True Cons show ?thesis by simp
    next
      case None
      have "version_tail cs = None"
      proof (cases "version_tail cs")
        case (Some g)
        with version_tail_Some_dropWhile [OF Some] None show ?thesis by simp
      qed simp
      with True None Cons show ?thesis by (simp add: after_seps_sep)
    qed
  qed
qed

lemma after_seps_fun:
  "(\<lambda>r2. re_opt_char 34 r2 (\<lambda>r3. re_group_plus is_verchar r3 (\<lambda>g r4. Some g))) = after_seps"
  by (rule ext) (simp add: after_seps_def)

lemma re_match_version_greedy:
  "re_match_version s =
     (if take 16 s = ustr ''FIRMWARE_VERSION'' \<and> takeWhile is_sep (drop 16 s) \<noteq> []
      then version_tail (dropWhile is_sep (drop 16 s)) else None)"
proof -
  have len: "length (ustr ''FIRMWARE_VERSION'') = 16" by (simp add: ustr_def)
  have "re_match_version s = re_literal (ustr ''FIRMWARE_VERSION'') s (\<lambda>r1. re_class_plus is_sep r1 after_seps)"
    by (simp add: re_match_version_def after_seps_fun)
  also have "\<dots> = (if take 16 s = ustr ''FIRMWARE_VERSION'' then re_class_plus is_sep (drop 16 s) after_seps else None)"
    by (simp add: re_literal_def len)
  also have "re_class_plus is_sep (drop 16 s) after_seps =
     (if takeWhile is_sep (drop 16 s) \<noteq> [] then version_tail (dropWhile is_sep (drop 16 s)) else None)"
    by (cases "drop 16 s") (simp_all add: re_class_plus_def re_class_star_seps)
  finally show ?thesis by auto
qed

lemma len_FV: "length (ustr ''FIRMWARE_VERSION'') = 16"
  by (simp add: ustr_def)

lemma re_search_version_split:
  "re_search_version s = Some v \<Longrightarrow> \<exists>pre t. s = pre @ t \<and> re_match_version t = Some v"
proof (induction s)
  case Nil
  then show ?case by simp
next
  case (Cons c cs)
  show ?case
  proof (cases "re_match_version (c # cs)")
    case (Some g)
    with Cons.prems have "re_match_version (c # cs) = Some v" by simp
    then show ?thesis by (metis append_Nil)
  next
    case None
    with Cons.prems have "re_search_version cs = Some v" by simp
    with Cons.IH obtain pre t where "cs = pre @ t" "re_match_version t = Some v" by blast
    then have "c # cs = (c # pre) @ t" by simp
    with \<open>re_match_version t = Some v\<close> show ?thesis by blast
  qed
qed

lemma dropWhile_stops: "(case dropWhile P xs of [] \<Rightarrow> True | c # _ \<Rightarrow> \<not> P c)"
  by (induction xs) auto

lemma takeWhile_all_stop:
  "list_all P xs \<Longrightarrow> (case rest of [] \<Rightarrow> True | c # _ \<Rightarrow> \<not> P c)
     \<Longrightarrow> takeWhile P (xs @ rest) = xs"
  by (induction xs) (auto split: list.splits)

lemma dropWhile_all_stop:
  "list_all P xs \<Longrightarrow> (case rest of [] \<Rightarrow> True | c # _ \<Rightarrow> \<not> P c)
     \<Longrightarrow> dropWhile P (xs @ rest) = rest"
  by (induction xs) (auto split: list.splits)

lemma re_match_version_matches:
  assumes "re_match_version t = Some v"
  shows "matches_here t v"
proof -
  let ?r = "drop 16 t"
  from assms have t: "take 16 t = ustr ''FIRMWARE_VERSION''"
    and ne: "takeWhile is_sep ?r \<noteq> []"
    and vt: "version_tail (dropWhile is_sep ?r) = Some v"
    by (auto simp add: re_match_version_greedy split: if_splits)
  from vt obtain c cs where d: "dropWhile is_sep ?r = c # cs" and c: "is_verchar c"
    and v: "v = c # takeWhile is_verchar cs"
    by (cases "dropWhile is_sep ?r") (auto simp add: version_tail_def split: if_splits)
  have "t = take 16 t @ takeWhile is_sep ?r @ dropWhile is_sep ?r" by simp
  also have "dropWhile is_sep ?r = v @ dropWhile is_verchar cs" by (simp add: d v)
  finally have eq: "t = ustr ''FIRMWARE_VERSION'' @ takeWhile is_sep ?r @ v @ dropWhile is_verchar cs"
    using t by simp
  have seps: "list_all is_sep (takeWhile is_sep ?r)"
    by (simp add: list_all_iff) (meson set_takeWhileD)
  have vs: "list_all is_verchar v"
    using c by (simp add: v list_all_iff) (meson set_takeWhileD)
  have vne: "v \<noteq> []" by (simp add: v)
  show ?thesis
    unfolding matches_here_def
  proof (intro exI conjI)
    show "t = ustr ''FIRMWARE_VERSION'' @ takeWhile is_sep ?r @ v @ dropWhile is_verchar cs"
      by (rule eq)
    show "takeWhile is_sep ?r \<noteq> []" by (rule ne)
    show "list_all is_sep (takeWhile is_sep ?r)" by (rule seps)
    show "v \<noteq> []" by (rule vne)
    show "list_all is_verchar v" by (rule vs)
    show "case dropWhile is_verchar cs of [] \<Rightarrow> True | c # _ \<Rightarrow> \<not> is_verchar c"
      by (rule dropWhile_stops)
  qed
qed

lemma matches_re_match_version:
  assumes "matches_here t v"
  shows "re_match_version t = Some v"
proof -
  from assms obtain seps rest where t: "t = ustr ''FIRMWARE_VERSION'' @ seps @ v @ rest"
    and seps: "seps \<noteq> []" "list_all is_sep seps" and v: "v \<noteq> []" "list_all is_verchar v"
    and rest: "(case rest of [] \<Rightarrow> True | c # _ \<Rightarrow> \<not> is_verchar c)"
    unfolding matches_here_def by blast
  from v obtain c cs where vc: "v = c # cs" and c: "is_verchar c" and cs: "list_all is_verchar cs"
    by (cases v) auto
  have stop: "(case v @ rest of [] \<Rightarrow> True | x # _ \<Rightarrow> \<not> is_sep x)"
    using c by (simp add: vc verchar_not_sep)
  have tw: "takeWhile is_sep (seps @ v @ rest) = seps"
    using takeWhile_all_stop [OF seps(2) stop] .
  have dw: "dropWhile is_sep (seps @ v @ rest) = v @ rest"
    using dropWhile_all_stop [OF seps(2) stop] .
  have tail: "takeWhile is_verchar (cs @ rest) = cs"
    using takeWhile_all_stop [OF cs rest] .
  show ?thesis
    using seps(1) c
    by (simp add: re_match_version_greedy t len_FV tw dw) (simp add: vc version_tail_def tail)
qed

lemma re_match_version_iff: "re_match_version t = Some v \<longleftrightarrow> matches_here t v"
  using re_match_version_matches matches_re_match_version by blast

lemma re_match_version_None_iff: "re_match_version t = None \<longleftrightarrow> (\<forall>x. \<not> matches_here t x)"
  using re_match_version_iff [of t] by (cases "re_match_version t") auto

lemma re_search_version_leftmost:
  "re_search_version flag = Some v \<longleftrightarrow>
     (\<exists>i \<le> length flag. re_match_version (drop i flag) = Some v
        \<and> (\<forall>j < i. re_match_version (drop j flag) = None))"
proof (induction flag)
  case Nil
  then show ?case by simp
next
  case (Cons c cs)
  show ?case
  proof (cases "re_match_version (c # cs)")
    case (Some g)
    have "(\<exists>i \<le> length (c # cs). re_match_version (drop i (c # cs)) = Some v
        \<and> (\<forall>j < i. re_match_version (drop j (c # cs)) = None)) \<longleftrightarrow> g = v"
    proof
      assume "\<exists>i \<le> length (c # cs). re_match_version (drop i (c # cs)) = Some v
        \<and> (\<forall>j < i. re_match_version (drop j (c # cs)) = None)"
      then obtain i where i: "re_match_version (drop i (c # cs)) = Some v"
        and less: "\<forall>j < i. re_match_version (drop j (c # cs)) = None" by blast
      have "i = 0"
      proof (rule ccontr)
        assume "i \<noteq> 0"
        then have "0 < i" by simp
        with less have "re_match_version (drop 0 (c # cs)) = None" by blast
        with Some show False by simp
      qed
      with i Some show "g = v" by simp
    next
      assume "g = v"
      with Some have "re_match_version (drop 0 (c # cs)) = Some v
        \<and> (\<forall>j < 0. re_match_version (drop j (c # cs)) = None)" by simp
      then show "\<exists>i \<le> length (c # cs). re_match_version (drop i (c # cs)) = Some v
        \<and> (\<forall>j < i. re_match_version (drop j (c # cs)) = None)" by blast
    qed
    with Some show ?thesis by simp
  next
    case None
    have "(\<exists>i \<le> length (c # cs). re_match_version (drop i (c # cs)) = Some v
        \<and> (\<forall>j < i. re_match_version (drop j (c # cs)) = None))
      \<longleftrightarrow> (\<exists>i \<le> length cs. re_match_version (drop i cs) = Some v
        \<and> (\<forall>j < i. re_match_version (drop j cs) = None))"
    proof
      assume "\<exists>i \<le> length (c # cs). re_match_version (drop i (c # cs)) = Some v
        \<and> (\<forall>j < i. re_match_version (drop j (c # cs)) = None)"
      then obtain i where le: "i \<le> length (c # cs)"
        and i: "re_match_version (drop i (c # cs)) = Some v"
        and less: "\<forall>j < i. re_match_version (drop j (c # cs)) = None" by blast
      from i None obtain k where k: "i = Suc k" by (cases i) auto
      from le k have "k \<le> length cs" by simp
      moreover from i k have "re_match_version (drop k cs) = Some v" by simp
      moreover have "\<forall>j < k. re_match_version (drop j cs) = None"
      proof (intro allI impI)
        fix j assume "j < k"
        then have "Suc j < i" using k by simp
        with less have "re_match_version (drop (Suc j) (c # cs)) = None" by blast
        then show "re_match_version (drop j cs) = None" by simp
      qed
      ultimately show "\<exists>i \<le> length cs. re_match_version (drop i cs) = Some v
        \<and> (\<forall>j < i. re_match_version (drop j cs) = None)" by blast
    next
      assume "\<exists>i \<le> length cs. re_match_version (drop i cs) = Some v
        \<and> (\<forall>j < i. re_match_version (drop j cs) = None)"
      then obtain k where le: "k \<le> length cs"
        and k: "re_match_version (drop k cs) = Some v"
        and less: "\<forall>j < k. re_match_version (drop j cs) = None" by blast
      have "\<forall>j < Suc k. re_match_version (drop j (c # cs)) = None"
      proof (intro allI impI)
        fix j assume j: "j < Suc k"
        show "re_match_version (drop j (c # cs)) = None"
        proof (cases j)
          case 0
          with None show ?thesis by simp
        next
          case (Suc j')
          with j less show ?thesis by simp
        qed
      qed
      moreover from k have "re_match_version (drop (Suc k) (c # cs)) = Some v" by simp
      moreover from le have "Suc k \<le> length (c # cs)" by simp
      ultimately show "\<exists>i \<le> length (c # cs). re_match_version (drop i (c # cs)) = Some v
        \<and> (\<forall>j < i. re_match_version (drop j (c # cs)) = None)" by blast
    qed
    with None Cons.IH show ?thesis by simp
  qed
qed

lemma re_search_version_iff: "re_search_version flag = Some v \<longleftrightarrow> version_match flag v"
  unfolding version_match_def re_search_version_leftmost
  by (simp add: re_match_version_iff re_match_version_None_iff)

lemma re_search_version_None_iff:
  "re_search_version flag = None \<longleftrightarrow> (\<forall>x. \<not> version_match flag x)"
  using re_search_version_iff [of flag] by (cases "re_search_version flag") auto

lemma contains_append: "take (length sub) t = sub \<Longrightarrow> contains sub (pre @ t)"
proof (induction pre)
  case Nil
  then show ?case by (cases t) auto
next
  case (Cons c pre)
  then show ?case by simp
qed

lemma re_search_version_contains:
  assumes "re_search_version flag = Some v"
  shows "contains (ustr ''FIRMWARE_VERSION'') flag"
proof -
  from re_search_version_split [OF assms] obtain pre t
    where f: "flag = pre @ t" and m: "re_match_version t = Some v" by blast
  from m have "take 16 t = ustr ''FIRMWARE_VERSION''"
    by (auto simp add: re_match_version_greedy split: if_splits)
  then show ?thesis unfolding f by (intro contains_append) (simp add: len_FV)
qed

lemma scan_build_flags_Cons:
  "scan_build_flags (flag # rest) =
     (case re_search_version flag of Some g \<Rightarrow> g | None \<Rightarrow> scan_build_flags rest)"
  using re_search_version_contains [of flag] by (auto split: option.splits)

lemma scan_build_flags_none:
  "\<forall>f \<in> set flags. re_search_version f = None \<Longrightarrow> scan_build_flags flags = ustr ''0.0.0''"
  by (induction flags) (simp_all add: scan_build_flags_Cons del: scan_build_flags.simps(2))

lemma scan_build_flags_first:
  "\<forall>f \<in> set pre. re_search_version f = None \<Longrightarrow> re_search_version flag = Some v
     \<Longrightarrow> scan_build_flags (pre @ flag # later) = v"
  by (induction pre) (simp_all add: scan_build_flags_Cons del: scan_build_flags.simps(2))

text \<open>
  Claim C8. \<open>get_firmware_version\<close> returns the \<open>custom_firmware_version\<close> option when
  it is set (to a non-empty string). Otherwise, when some build flag holds a
  \<open>FIRMWARE_VERSION\<close> definition with a digits-and-dots value, it returns the matched
  value of the first flag that has one. Otherwise it returns \<open>"0.0.0"\<close>.
\<close>

theorem get_firmware_version_resolution:
  "(opt_custom_firmware_version env = Some c \<and> c \<noteq> [] \<longrightarrow> get_firmware_version env = c)
   \<and> ((opt_custom_firmware_version env = None \<or> opt_custom_firmware_version env = Some [])
        \<and> env_BUILD_FLAGS env = pre @ flag # later
        \<and> (\<forall>f \<in> set pre. \<forall>x. \<not> version_match f x)
        \<and> version_match flag v \<longrightarrow>
       get_firmware_version env = v)
   \<and> ((opt_custom_firmware_version env = None \<or> opt_custom_firmware_version env = Some [])
        \<and> (\<forall>f \<in> set (env_BUILD_FLAGS env). \<forall>x. \<not> version_match f x) \<longrightarrow>
       get_firmware_version env = ustr ''0.0.0'')"
proof (intro conjI impI)
  assume "opt_custom_firmware_version env = Some c \<and> c \<noteq> []"
  then show "get_firmware_version env = c"
    by (simp add: get_firmware_version_def GetProjectOption_def)
next
  assume a: "(opt_custom_firmware_version env = None \<or> opt_custom_firmware_version env = Some [])
        \<and> env_BUILD_FLAGS env = pre @ flag # later
        \<and> (\<forall>f \<in> set pre. \<forall>x. \<not> version_match f x)
        \<and> version_match flag v"
  then have g: "get_firmware_version env = scan_build_flags (pre @ flag # later)"
    by (auto simp add: get_firmware_version_def GetProjectOption_def)
  from a have pre: "\<forall>f \<in> set pre. re_search_version f = None"
    by (simp add: re_search_version_None_iff)
  from a have v: "re_search_version flag = Some v"
    by (simp add: re_search_version_iff)
  from scan_build_flags_first [OF pre v] g
  show "get_firmware_version env = v" by simp
next
  assume a: "(opt_custom_firmware_version env = None \<or> opt_custom_firmware_version env = Some [])
        \<and> (\<forall>f \<in> set (env_BUILD_FLAGS env). \<forall>x. \<not> version_match f x)"
  then have g: "get_firmware_version env = scan_build_flags (env_BUILD_FLAGS env)"
    by (auto simp add: get_firmware_version_def GetProjectOption_def)
  from a have "\<forall>f \<in> set (env_BUILD_FLAGS env). re_search_version f = None"
    by (simp add: re_search_version_None_iff)
  from scan_build_flags_none [OF this] g
  show "get_firmware_version env = ustr ''0.0.0''" by simp
qed

lemma re_search_version_demo_flag: "re_search_version demo_flag = Some (ustr ''1.4.2'')"
  by (simp add: demo_flag_def ustr_def re_match_version_def re_literal_def re_class_plus_def
        re_opt_char_def re_group_plus_def is_sep_def is_verchar_def)

lemma re_search_version_Wall: "re_search_version (ustr ''-Wall'') = None"
  by (simp add: ustr_def re_match_version_def re_literal_def)

theorem get_firmware_version_resolution_witness:
  "get_firmware_version demo_env = ustr ''1.2.0''
   \<and> get_firmware_version (demo_env\<lparr>opt_custom_firmware_version := None,
                                     env_BUILD_FLAGS := [ustr ''-Wall'', demo_flag]\<rparr>)
       = ustr ''1.4.2''
   \<and> get_firmware_version (demo_env\<lparr>opt_custom_firmware_version := Some [],
                                     env_BUILD_FLAGS := [ustr ''-Wall'']\<rparr>) = ustr ''0.0.0''"
proof -
  have no: "\<forall>f \<in> set [ustr ''-Wall'']. \<forall>x. \<not> version_match f x"
    using re_search_version_Wall by (simp add: re_search_version_None_iff)
  have yes: "version_match demo_flag (ustr ''1.4.2'')"
    using re_search_version_demo_flag by (simp add: re_search_version_iff)
  show ?thesis
    using get_firmware_version_resolution [of demo_env "ustr ''1.2.0''"]
          get_firmware_version_resolution [of
            "demo_env\<lparr>opt_custom_firmware_version := None,
                      env_BUILD_FLAGS := [ustr ''-Wall'', demo_flag]\<rparr>"
            "[]" "[ustr ''-Wall'']" demo_flag "[]" "ustr ''1.4.2''"]
          get_firmware_version_resolution [of
            "demo_env\<lparr>opt_custom_firmware_version := Some [],
                      env_BUILD_FLAGS := [ustr ''-Wall'']\<rparr>"]
          no yes
    by (simp add: demo_env_def ustr_def)
qed

section \<open>Properties of the upload server\<close>

lemma split_demo:
  "py_split (''--'' @ ''f00d'') (multipart_body ''f00d'' demo_fields (Some (''AB'' @ [CHR 0x0A])))
   = [[],
      CRLF @ ''Content-Disposition: form-data; '' @ name_attr ''version'' @ CRLF @ CRLF @ ''1.2.0'' @ CRLF,
      CRLF @ ''Content-Disposition: form-data; '' @ name_attr ''md5'' @ CRLF @ CRLF @ ''0cc1'' @ CRLF,
      CRLF @ ''Content-Disposition: form-data; '' @ name_attr ''size'' @ CRLF @ CRLF @ ''3'' @ CRLF,
      CRLF @ ''Content-Disposition: form-data; '' @ name_attr ''board'' @ CRLF @ CRLF @ ''esp32dev'' @ CRLF,
      CRLF @ ''Content-Disposition: form-data; '' @ name_attr ''firmware''
       @ ''; filename='' @ [CHR 0x22] @ ''firmware.bin'' @ [CHR 0x22] @ CRLF
       @ ''Content-Type: application/octet-stream'' @ CRLF @ CRLF @ (''AB'' @ [CHR 0x0A]) @ CRLF,
      ''--'' @ CRLF]"
  by (simp add: py_split_def multipart_body_def multipart_field_def multipart_file_def
        demo_fields_def CRLF_def name_attr_def)

lemma rfile_read_length:
  "int (length f) \<le> 9223372036854775807 \<Longrightarrow> rfile_read f (int (length f)) = Inr f"
  by (simp add: rfile_read_def)

lemma read_demo:
  "rfile_read (multipart_body ''f00d'' demo_fields (Some (''AB'' @ [CHR 0x0A])))
      (int (length (multipart_body ''f00d'' demo_fields (Some (''AB'' @ [CHR 0x0A])))))
   = Inr (multipart_body ''f00d'' demo_fields (Some (''AB'' @ [CHR 0x0A])))"
  by (rule rfile_read_length)
     (simp add: multipart_body_def multipart_field_def multipart_file_def demo_fields_def
        CRLF_def name_attr_def)

lemma boundary_demo:
  "boundary_of (ustr (''multipart/form-data; boundary='' @ ''f00d'')) = Inr ''f00d''"
  by (simp add: boundary_of_def py_split_def ustr_def utf8_enc_char_def char_of_def bit_0)

lemma parse_demo:
  "parse_parts (py_split (''--'' @ ''f00d'') (multipart_body ''f00d'' demo_fields (Some (''AB'' @ [CHR 0x0A]))))
      (None, Map.empty)
   = Inr (Some ''AB'', [ustr ''version'' \<mapsto> ustr ''1.2.0'', ustr ''board'' \<mapsto> ustr ''esp32dev''])"
  unfolding split_demo
  by (simp add: CRLF_def name_attr_def payload_of_def py_rstrip_def utf8_decode_def ustr_def)

text \<open>
  Claim C1, at a firmware that ends in a line feed. The client uploads the three bytes
  \<open>AB\n\<close>. \<open>rstrip(b"\r\n--")\<close> removes every trailing byte that is a carriage return, a
  line feed or a hyphen, so it takes the last byte of the firmware along with the \<open>\r\n\<close>
  before the next delimiter: the server stores the two bytes \<open>AB\<close>, and answers 200 with
  the MD5 of \<open>AB\<close> and size 2, while the client sent 3 bytes.
\<close>

theorem trailing_newline_is_stripped:
  "fst (do_POST md5hex now (upload_request ''f00d'' demo_fields (Some (''AB'' @ [CHR 0x0A]))) fs)
     = Json 200 [(ustr ''status'', JStr (ustr ''ok'')), (ustr ''md5'', JStr (md5hex ''AB'')),
                 (ustr ''size'', JInt 2)]
   \<and> firmware_bin (snd (do_POST md5hex now
         (upload_request ''f00d'' demo_fields (Some (''AB'' @ [CHR 0x0A]))) fs)) = Some ''AB''
   \<and> length (''AB'' @ [CHR 0x0A]) = 3"
  by (simp add: do_POST_def upload_request_def boundary_demo read_demo parse_demo Let_def
        del: append.simps)















section \<open>The manifest read back\<close>

declare scanstring.simps [simp del]

lemma scan_quote: "scanstring (34 # cs) = Some ([], cs)"
  by (simp add: scanstring.simps)

lemma scan_plain:
  "c \<noteq> 34 \<Longrightarrow> c \<noteq> 92 \<Longrightarrow> \<not> c < 32 \<Longrightarrow> scanstring (c # cs) = cons_char c (scanstring cs)"
  by (simp add: scanstring.simps)

lemma scan_backslash:
  "e \<noteq> 117 \<Longrightarrow> backslash e = Some ch \<Longrightarrow> scanstring (92 # e # r) = cons_char ch (scanstring r)"
  by (simp add: scanstring.simps)

lemma scan_u_single:
  "decode_uXXXX r = Some uni \<Longrightarrow> \<not> (55296 \<le> uni \<and> uni \<le> 56319)
     \<Longrightarrow> scanstring (92 # 117 # r) = cons_char uni (scanstring (drop 4 r))"
  by (auto simp add: scanstring.simps)

lemma scan_u_pair:
  "decode_uXXXX r = Some uni \<Longrightarrow> 55296 \<le> uni \<Longrightarrow> uni \<le> 56319
     \<Longrightarrow> take 2 (drop 4 r) = [92, 117] \<Longrightarrow> decode_uXXXX (drop 6 r) = Some uni2
     \<Longrightarrow> 56320 \<le> uni2 \<Longrightarrow> uni2 \<le> 57343
     \<Longrightarrow> scanstring (92 # 117 # r)
         = cons_char (65536 + (uni - 55296) * 1024 + (uni2 - 56320)) (scanstring (drop 10 r))"
  by (simp add: scanstring.simps)

lemma hex_val_hex_digit: "d < 16 \<Longrightarrow> hex_val (hex_digit d) = Some d"
  by (auto simp add: hex_val_def hex_digit_def)

lemma hex4_value:
  assumes "(n::nat) < 65536"
  shows "((n div 4096 mod 16 * 16 + n div 256 mod 16) * 16 + n div 16 mod 16) * 16 + n mod 16 = n"
proof -
  have a: "n div 4096 mod 16 = n div 4096" using assms by simp
  have 1: "n div 16 * 16 + n mod 16 = n" by simp
  have "n div 16 div 16 * 16 + n div 16 mod 16 = n div 16" by (rule div_mult_mod_eq)
  moreover have "n div 16 div 16 = n div 256" by (simp add: div_mult2_eq [symmetric])
  ultimately have 2: "n div 256 * 16 + n div 16 mod 16 = n div 16" by simp
  have "n div 256 div 16 * 16 + n div 256 mod 16 = n div 256" by (rule div_mult_mod_eq)
  moreover have "n div 256 div 16 = n div 4096" by (simp add: div_mult2_eq [symmetric])
  ultimately have 3: "n div 4096 * 16 + n div 256 mod 16 = n div 256" by simp
  show ?thesis unfolding a 3 2 1 ..
qed

lemma decode_hex4:
  assumes "n < 65536"
  shows "decode_uXXXX (hex4 n @ rest) = Some n"
proof -
  have d: "n div 4096 mod 16 < 16" "n div 256 mod 16 < 16" "n div 16 mod 16 < 16" "n mod 16 < 16"
    by simp_all
  have "decode_uXXXX (hex4 n @ rest)
      = Some (((n div 4096 mod 16 * 16 + n div 256 mod 16) * 16 + n div 16 mod 16) * 16 + n mod 16)"
    unfolding decode_uXXXX_def hex4_def
    by (simp only: append_Cons append_Nil list.case hex_val_hex_digit [OF d(1)]
          hex_val_hex_digit [OF d(2)] hex_val_hex_digit [OF d(3)] hex_val_hex_digit [OF d(4)]
          prod.case option.case)
  then show ?thesis by (simp only: hex4_value [OF assms])
qed

lemma length_hex4: "length (hex4 n) = 4"
  by (simp add: hex4_def)


lemma surrogate_pair_join:
  assumes "65536 \<le> c" "c < 1114112"
  shows "65536 + (55296 + (c - 65536) div 1024 mod 1024 - 55296) * 1024
           + (56320 + (c - 65536) mod 1024 - 56320) = (c::nat)"
proof -
  from assms have "(c - 65536) div 1024 < 1024" by simp
  then have "(c - 65536) div 1024 mod 1024 = (c - 65536) div 1024" by simp
  moreover have "(c - 65536) div 1024 * 1024 + (c - 65536) mod 1024 = c - 65536"
    by (rule div_mult_mod_eq)
  ultimately show ?thesis using assms(1) by simp
qed

lemma scanstring_escape:
  assumes "valid_cp c"
  shows "scanstring (escape_char c @ t) = cons_char c (scanstring t)"
proof -
  consider (short) "c = 92 \<or> c = 34 \<or> c = 8 \<or> c = 12 \<or> c = 10 \<or> c = 13 \<or> c = 9"
    | (plain) "32 \<le> c" "c \<le> 126" "c \<noteq> 92" "c \<noteq> 34"
    | (bmp) "c < 32 \<or> 126 < c" "c < 65536" "c \<noteq> 8" "c \<noteq> 12" "c \<noteq> 10" "c \<noteq> 13" "c \<noteq> 9"
    | (astral) "65536 \<le> c"
    by linarith
  then show ?thesis
  proof cases
    case short
    then show ?thesis
      by (elim disjE) (simp_all add: escape_char_def scan_backslash backslash_def)
  next
    case plain
    then have "escape_char c = [c]" by (simp add: escape_char_def)
    with plain show ?thesis by (simp add: scan_plain)
  next
    case bmp
    from assms bmp(2) have ns: "\<not> (55296 \<le> c \<and> c \<le> 56319)"
      by (auto simp add: valid_cp_def)
    from bmp have e: "escape_char c = [92, 117] @ hex4 c"
      by (auto simp add: escape_char_def)
    have "scanstring (92 # 117 # hex4 c @ t) = cons_char c (scanstring (drop 4 (hex4 c @ t)))"
      by (rule scan_u_single [OF decode_hex4 [OF bmp(2)] ns])
    then show ?thesis by (simp add: e length_hex4)
  next
    case astral
    with assms have lt: "c < 1114112" by (simp add: valid_cp_def)
    define hi where "hi = 55296 + (c - 65536) div 1024 mod 1024"
    define lo where "lo = 56320 + (c - 65536) mod 1024"
    from astral have e: "escape_char c = [92, 117] @ hex4 hi @ [92, 117] @ hex4 lo"
      by (simp add: escape_char_def hi_def lo_def)
    have hi: "hi < 65536" "55296 \<le> hi" "hi \<le> 56319" by (simp_all add: hi_def)
    have lo: "lo < 65536" "56320 \<le> lo" "lo \<le> 57343" by (simp_all add: lo_def)
    have join: "65536 + (hi - 55296) * 1024 + (lo - 56320) = c"
      unfolding hi_def lo_def by (rule surrogate_pair_join [OF astral lt])
    let ?r = "hex4 hi @ [92, 117] @ hex4 lo @ t"
    have d1: "decode_uXXXX ?r = Some hi"
      by (rule decode_hex4 [OF hi(1)])
    have "drop 6 ?r = hex4 lo @ t" by (simp add: length_hex4)
    then have d2: "decode_uXXXX (drop 6 ?r) = Some lo"
      by (simp only: decode_hex4 [OF lo(1)])
    have t2: "take 2 (drop 4 ?r) = [92, 117]"
      by (simp add: length_hex4)
    have d10: "drop 10 ?r = t"
      by (simp add: length_hex4)
    have "scanstring (92 # 117 # ?r)
        = cons_char (65536 + (hi - 55296) * 1024 + (lo - 56320)) (scanstring (drop 10 ?r))"
      by (rule scan_u_pair [OF d1 hi(2) hi(3) t2 d2 lo(2) lo(3)])
    then show ?thesis using d10 by (simp add: e join)
  qed
qed

lemma scanstring_encode:
  "valid_str s \<Longrightarrow> scanstring (concat (map escape_char s) @ 34 # rest) = Some (s, rest)"
  by (induction s) (simp_all add: valid_str_def scanstring_escape cons_char_def scan_quote)


lemma str_of_nat_digits: "list_all is_digit (str_of_nat n)"
proof (induction n rule: str_of_nat.induct)
  case (1 n)
  show ?case
  proof (cases "n < 10")
    case True
    then show ?thesis by (subst str_of_nat.simps) (simp add: is_digit_def)
  next
    case False
    have "n mod 10 < 10" by simp
    then have "is_digit (48 + n mod 10)" by (simp add: is_digit_def)
    with False 1 show ?thesis by (subst str_of_nat.simps) simp
  qed
qed

lemma str_of_nat_first:
  "\<exists>c cs. str_of_nat n = c # cs \<and> (c = 48 \<longleftrightarrow> n = 0)"
proof (induction n rule: str_of_nat.induct)
  case (1 n)
  show ?case
  proof (cases "n < 10")
    case True
    then show ?thesis by (subst str_of_nat.simps) simp
  next
    case False
    then have "n div 10 \<noteq> 0" by simp
    with 1 [OF False] obtain c cs where "str_of_nat (n div 10) = c # cs" "c \<noteq> 48" by auto
    with False show ?thesis by (subst str_of_nat.simps) simp
  qed
qed

lemma nat_of_digits_snoc: "nat_of_digits (ds @ [d]) = nat_of_digits ds * 10 + (d - 48)"
  by (simp add: nat_of_digits_def)

lemma nat_of_digits_str_of_nat: "nat_of_digits (str_of_nat n) = n"
proof (induction n rule: str_of_nat.induct)
  case (1 n)
  show ?case
  proof (cases "n < 10")
    case True
    then show ?thesis by (subst str_of_nat.simps) (simp add: nat_of_digits_def)
  next
    case False
    with 1 show ?thesis by (subst str_of_nat.simps) (simp add: nat_of_digits_snoc)
  qed
qed

lemma takeWhile_digits:
  assumes "list_all is_digit ds" "ends_number rest"
  shows "takeWhile is_digit (ds @ rest) = ds" "dropWhile is_digit (ds @ rest) = rest"
  using assms by (induction ds) (auto simp add: ends_number_def split: list.splits)

lemma int_or_float_ends: "ends_number rest \<Longrightarrow> int_or_float n rest = Some (n, rest)"
  by (auto simp add: ends_number_def int_or_float_def split: list.splits)

lemma parse_nat_str_of_nat:
  assumes "ends_number rest"
  shows "parse_nat (str_of_nat n @ rest) = Some (n, rest)"
proof -
  from str_of_nat_first [of n] obtain c cs where s: "str_of_nat n = c # cs"
    and z: "c = 48 \<longleftrightarrow> n = 0" by blast
  show ?thesis
  proof (cases "n = 0")
    case True
    have "str_of_nat 0 = [48]" by (subst str_of_nat.simps) simp
    with True assms show ?thesis by (simp add: parse_nat_def int_or_float_ends)
  next
    case False
    with z have c: "c \<noteq> 48" by simp
    from str_of_nat_digits [of n] s have d: "is_digit c" by simp
    have "parse_nat (c # cs @ rest)
        = int_or_float (nat_of_digits (takeWhile is_digit (c # cs @ rest)))
            (dropWhile is_digit (c # cs @ rest))"
      using c d by (simp add: parse_nat_def)
    also have "c # cs @ rest = str_of_nat n @ rest" by (simp add: s)
    finally show ?thesis
      using takeWhile_digits [OF str_of_nat_digits assms, of n]
      by (simp add: s [symmetric] nat_of_digits_str_of_nat int_or_float_ends [OF assms])
  qed
qed


lemma skip_ws_simps:
  "skip_ws [] = []"
  "skip_ws (32 # s) = skip_ws s"
  "skip_ws (10 # s) = skip_ws s"
  "\<not> is_ws c \<Longrightarrow> skip_ws (c # s) = c # s"
  by (simp_all add: skip_ws_def is_ws_def)

lemma not_ws: "\<not> is_ws 34" "\<not> is_ws 58" "\<not> is_ws 44" "\<not> is_ws 125" "\<not> is_ws 123"
  by (simp_all add: is_ws_def)

lemma ends_number_simps: "ends_number (10 # s)" "ends_number (44 # s)"
  by (simp_all add: ends_number_def is_digit_def)

lemma parse_value_json_value:
  assumes "valid_json v" "ends_number rest"
  shows "parse_value (json_value v @ rest) = Some (v, rest)"
proof (cases v)
  case (JStr x)
  with assms(1) have "valid_str x" by simp
  from scanstring_encode [OF this, of rest] show ?thesis
    by (simp add: JStr parse_value_def py_encode_basestring_ascii_def)
next
  case (JInt i)
  show ?thesis
  proof (cases "i < 0")
    case True
    then show ?thesis
      by (simp add: JInt parse_value_def py_str_int_def parse_nat_str_of_nat [OF assms(2)])
  next
    case False
    from str_of_nat_first [of "nat i"] obtain c cs where s: "str_of_nat (nat i) = c # cs" by blast
    from str_of_nat_digits [of "nat i"] s have "is_digit c" by simp
    then have c: "c \<noteq> 34" "c \<noteq> 45" by (auto simp add: is_digit_def)
    have "parse_value (c # cs @ rest)
        = map_option (\<lambda>(n, rest). (JInt (int n), rest)) (parse_nat (c # cs @ rest))"
      using c by (simp add: parse_value_def)
    also have "c # cs @ rest = str_of_nat (nat i) @ rest" by (simp add: s)
    finally show ?thesis
      using False
      by (simp add: JInt py_str_int_def s [symmetric] parse_nat_str_of_nat [OF assms(2)])
  qed
qed

lemma json_value_first: "\<exists>c cs. json_value v = c # cs \<and> \<not> is_ws c"
proof (cases v)
  case (JStr x)
  then show ?thesis by (simp add: py_encode_basestring_ascii_def is_ws_def)
next
  case (JInt i)
  from str_of_nat_first [of "nat i"] str_of_nat_first [of "nat (- i)"]
    str_of_nat_digits [of "nat i"] str_of_nat_digits [of "nat (- i)"]
  show ?thesis
    by (auto simp add: JInt py_str_int_def is_ws_def is_digit_def)
qed

lemma ustr_colon: "ustr '': '' = [58, 32]" and ustr_indent: "ustr ''  '' = [32, 32]"
  and ustr_braces: "ustr ''{}'' = [123, 125]"
  by (simp_all add: ustr_def)

lemma parse_pair_item:
  assumes "valid_str k" "valid_json v" "ends_number rest"
  shows "parse_pair (py_encode_basestring_ascii k @ ustr '': '' @ json_value v @ rest)
           = Some ((k, v), rest)"
proof -
  from json_value_first [of v] obtain c cs where jv: "json_value v = c # cs" "\<not> is_ws c"
    by blast
  have sk: "skip_ws (32 # json_value v @ rest) = json_value v @ rest"
    using jv by (simp add: skip_ws_simps)
  have sc: "scanstring (concat (map escape_char k) @ 34 # 58 # 32 # json_value v @ rest)
              = Some (k, 58 # 32 # json_value v @ rest)"
    by (rule scanstring_encode [OF assms(1)])
  show ?thesis
    unfolding parse_pair_def py_encode_basestring_ascii_def ustr_colon
    using sc sk parse_value_json_value [OF assms(2,3)]
    by (simp add: skip_ws_simps not_ws)
qed

declare parse_members.simps [simp del]

lemma skip_ws_item:
  "skip_ws (json_item kv @ t)
     = py_encode_basestring_ascii (fst kv) @ ustr '': '' @ json_value (snd kv) @ t"
  by (simp add: json_item_def ustr_indent skip_ws_simps py_encode_basestring_ascii_def not_ws)

lemma parse_members_items:
  "kvs \<noteq> [] \<Longrightarrow> list_all (\<lambda>kv. valid_str (fst kv) \<and> valid_json (snd kv)) kvs
     \<Longrightarrow> parse_members (skip_ws (json_items kvs @ 125 # rest)) = Some (kvs, rest)"
proof (induction kvs rule: json_items.induct)
  case 1
  then show ?case by simp
next
  case (2 kv)
  then have v: "valid_str (fst kv)" "valid_json (snd kv)" by simp_all
  have "skip_ws (json_items [kv] @ 125 # rest)
      = py_encode_basestring_ascii (fst kv) @ ustr '': '' @ json_value (snd kv) @ 10 # 125 # rest"
    using skip_ws_item [of kv "10 # 125 # rest"] by simp
  moreover have "parse_pair (py_encode_basestring_ascii (fst kv) @ ustr '': ''
                   @ json_value (snd kv) @ 10 # 125 # rest) = Some (kv, 10 # 125 # rest)"
    using parse_pair_item [OF v ends_number_simps(1), of "125 # rest"] by simp
  ultimately show ?case
    by (subst parse_members.simps) (simp add: skip_ws_simps not_ws)
next
  case (3 kv kv' kvs)
  then have v: "valid_str (fst kv)" "valid_json (snd kv)"
    and rest_ok: "list_all (\<lambda>kv. valid_str (fst kv) \<and> valid_json (snd kv)) (kv' # kvs)"
    by simp_all
  let ?tail = "json_items (kv' # kvs) @ 125 # rest"
  have "skip_ws (json_items (kv # kv' # kvs) @ 125 # rest)
      = py_encode_basestring_ascii (fst kv) @ ustr '': '' @ json_value (snd kv) @ 44 # 10 # ?tail"
    using skip_ws_item [of kv "44 # 10 # ?tail"] by simp
  moreover have "parse_pair (py_encode_basestring_ascii (fst kv) @ ustr '': ''
                   @ json_value (snd kv) @ 44 # 10 # ?tail) = Some (kv, 44 # 10 # ?tail)"
    using parse_pair_item [OF v ends_number_simps(2), of "10 # ?tail"] by simp
  moreover have "parse_members (skip_ws ?tail) = Some (kv' # kvs, rest)"
    using "3.IH" rest_ok by simp
  ultimately show ?case
    by (subst parse_members.simps) (simp add: skip_ws_simps not_ws)
qed

lemma json_loads_json_dumps:
  assumes "list_all (\<lambda>kv. valid_str (fst kv) \<and> valid_json (snd kv)) d"
  shows "json_loads (json_dumps d) = Some d"
proof (cases "d = []")
  case True
  then show ?thesis
    by (simp add: json_loads_def json_dumps_def ustr_braces skip_ws_simps not_ws)
next
  case False
  then obtain kv kvs where d: "d = kv # kvs" by (cases d) auto
  have "\<exists>t. json_items d = json_item kv @ t"
    unfolding d by (cases kvs) auto
  then obtain t where t: "json_items d = json_item kv @ t" by blast
  have first: "skip_ws (json_items d @ [125])
      = 34 # concat (map escape_char (fst kv)) @ [34] @ ustr '': '' @ json_value (snd kv)
          @ t @ [125]"
    using skip_ws_item [of kv "t @ [125]"] by (simp add: t py_encode_basestring_ascii_def)
  have pm: "parse_members (skip_ws (json_items d @ [125])) = Some (d, [])"
    using parse_members_items [OF False assms, of "[]"] by simp
  show ?thesis
    using False pm
    by (simp add: json_loads_def json_dumps_def skip_ws_simps not_ws first pm [unfolded first])
qed

lemma verchars_valid: "list_all is_verchar v \<Longrightarrow> valid_str v"
  by (induction v) (auto simp add: valid_str_def valid_cp_def is_verchar_def)

lemma re_search_version_valid:
  assumes "re_search_version f = Some v"
  shows "valid_str v"
proof -
  from assms have "version_match f v" by (simp add: re_search_version_iff)
  then obtain i where "matches_here (drop i f) v" unfolding version_match_def by blast
  then have "list_all is_verchar v" unfolding matches_here_def by blast
  then show ?thesis by (rule verchars_valid)
qed

lemma valid_ustr_zero: "valid_str (ustr ''0.0.0'')"
  by (simp add: valid_str_def valid_cp_def ustr_def)

lemma scan_build_flags_valid: "valid_str (scan_build_flags flags)"
proof (induction flags)
  case Nil
  then show ?case by (simp add: valid_ustr_zero)
next
  case (Cons f flags)
  then show ?case
    using re_search_version_valid [of f]
    by (simp add: scan_build_flags_Cons del: scan_build_flags.simps split: option.splits)
qed

lemma get_firmware_version_valid:
  assumes "\<forall>v. opt_custom_firmware_version env = Some v \<longrightarrow> valid_str v"
  shows "valid_str (get_firmware_version env)"
  using assms scan_build_flags_valid [of "env_BUILD_FLAGS env"]
  by (auto simp add: get_firmware_version_def GetProjectOption_def split: option.splits)

lemma valid_ascii_keys:
  "valid_str (ustr ''version'')" "valid_str (ustr ''file'')" "valid_str (ustr ''md5'')"
  "valid_str (ustr ''size'')" "valid_str (ustr ''board'')" "valid_str (ustr ''timestamp'')"
  "valid_str (ustr ''firmware.bin'')" "valid_str (ustr ''unknown'')" "valid_str (ustr ''Z'')"
  by (simp_all add: valid_str_def valid_cp_def ustr_def)

lemma valid_str_append: "valid_str (a @ b) \<longleftrightarrow> valid_str a \<and> valid_str b"
  by (simp add: valid_str_def)

lemma manifest_dict_loads:
  assumes "valid_str (m_version m)" "valid_str (m_file m)" "valid_str (m_md5 m)"
    "valid_str (m_board m)" "valid_str (m_timestamp m)"
  shows "json_loads (json_dumps (manifest_dict m)) = Some (manifest_dict m)"
  by (rule json_loads_json_dumps) (simp add: manifest_dict_def assms valid_ascii_keys)

lemma dict_get_manifest:
  "dict_get (manifest_dict m) (ustr ''version'') = Some (JStr (m_version m))"
  "dict_get (manifest_dict m) (ustr ''md5'') = Some (JStr (m_md5 m))"
  "dict_get (manifest_dict m) (ustr ''size'') = Some (JInt (m_size m))"
  "dict_get (manifest_dict m) (ustr ''board'') = Some (JStr (m_board m))"
  by (simp_all add: dict_get_def manifest_dict_def ustr_def)

text \<open>
  Claim C9. After a run of \<open>deploy_firmware\<close> that finds the built firmware, reading the
  written \<open>manifest.json\<close> back with \<open>json.load\<close> gives, at the keys \<open>version\<close>, \<open>md5\<close>,
  \<open>size\<close> and \<open>board\<close>, the very values that were staged: the version resolved by
  \<open>get_firmware_version\<close>, the MD5 digest of the firmware, its length, and the board. The
  strings are text: the \<open>custom_firmware_version\<close> option and the board as read from the
  project configuration, the hex digest and the time stamp hold no surrogate code points.
\<close>

theorem staged_manifest_round_trip:
  assumes "built_firmware fs = Some data"
    and "\<forall>v. opt_custom_firmware_version env = Some v \<longrightarrow> valid_str v"
    and "\<forall>b. env_BOARD env = Some b \<longrightarrow> valid_str b"
    and "valid_str (md5hex data)"
    and "valid_str now"
  shows "read_back (staged_manifest (snd (deploy_firmware md5hex now hr w os env fs)))
           (ustr ''version'') = Some (JStr (get_firmware_version env))
       \<and> read_back (staged_manifest (snd (deploy_firmware md5hex now hr w os env fs)))
           (ustr ''md5'') = Some (JStr (md5hex data))
       \<and> read_back (staged_manifest (snd (deploy_firmware md5hex now hr w os env fs)))
           (ustr ''size'') = Some (JInt (int (length data)))
       \<and> read_back (staged_manifest (snd (deploy_firmware md5hex now hr w os env fs)))
           (ustr ''board'')
           = Some (JStr (case env_BOARD env of None \<Rightarrow> ustr ''unknown'' | Some b \<Rightarrow> b))"
proof -
  define m where "m = \<lparr>m_version = get_firmware_version env, m_file = ustr ''firmware.bin'',
      m_md5 = md5hex data, m_size = int (length data),
      m_board = (case env_BOARD env of None \<Rightarrow> ustr ''unknown'' | Some b \<Rightarrow> b),
      m_timestamp = now @ ustr ''Z''\<rparr>"
  have staged: "staged_manifest (snd (deploy_firmware md5hex now hr w os env fs))
      = Some (json_dumps (manifest_dict m))"
    using assms(1) by (simp add: deploy_firmware_def Let_def m_def)
  have board: "valid_str (case env_BOARD env of None \<Rightarrow> ustr ''unknown'' | Some b \<Rightarrow> b)"
    using assms(3) by (simp add: valid_ascii_keys split: option.splits)
  have "json_loads (json_dumps (manifest_dict m)) = Some (manifest_dict m)"
    by (rule manifest_dict_loads)
       (simp_all add: m_def get_firmware_version_valid [OF assms(2)] board assms(4,5)
          valid_ascii_keys valid_str_append)
  then have "read_back (Some (json_dumps (manifest_dict m))) k = dict_get (manifest_dict m) k"
    for k by (simp add: read_back_def)
  then show ?thesis
    unfolding staged by (simp add: dict_get_manifest) (simp add: m_def)
qed

theorem staged_manifest_round_trip_witness:
  "read_back (staged_manifest (snd (deploy_firmware demo_md5hex (ustr ''2024-01-01T00:00:00'')
       True (demo_net (\<lambda>n. Response 200 [])) \<lparr>os_FLASH_METHOD = None, os_OTA_SERVER_URL = None\<rparr>
       demo_env demo_fs))) (ustr ''version'') = Some (JStr (ustr ''1.2.0''))
   \<and> read_back (staged_manifest (snd (deploy_firmware demo_md5hex (ustr ''2024-01-01T00:00:00'')
       True (demo_net (\<lambda>n. Response 200 [])) \<lparr>os_FLASH_METHOD = None, os_OTA_SERVER_URL = None\<rparr>
       demo_env demo_fs))) (ustr ''md5'')
       = Some (JStr (ustr ''900150983cd24fb0d6963f7d28e17f72''))
   \<and> read_back (staged_manifest (snd (deploy_firmware demo_md5hex (ustr ''2024-01-01T00:00:00'')
       True (demo_net (\<lambda>n. Response 200 [])) \<lparr>os_FLASH_METHOD = None, os_OTA_SERVER_URL = None\<rparr>
       demo_env demo_fs))) (ustr ''size'') = Some (JInt 3)
   \<and> read_back (staged_manifest (snd (deploy_firmware demo_md5hex (ustr ''2024-01-01T00:00:00'')
       True (demo_net (\<lambda>n. Response 200 [])) \<lparr>os_FLASH_METHOD = None, os_OTA_SERVER_URL = None\<rparr>
       demo_env demo_fs))) (ustr ''board'') = Some (JStr (ustr ''esp32dev''))"
proof -
  have fw: "built_firmware demo_fs = Some ''abc''" by (simp add: demo_fs_def)
  have v: "\<forall>v. opt_custom_firmware_version demo_env = Some v \<longrightarrow> valid_str v"
    by (simp add: demo_env_def valid_str_def valid_cp_def ustr_def)
  have b: "\<forall>b. env_BOARD demo_env = Some b \<longrightarrow> valid_str b"
    by (simp add: demo_env_def valid_str_def valid_cp_def ustr_def)
  have h: "valid_str (demo_md5hex ''abc'')"
    by (simp add: demo_md5hex_def valid_str_def valid_cp_def ustr_def)
  have n: "valid_str (ustr ''2024-01-01T00:00:00'')"
    by (simp add: valid_str_def valid_cp_def ustr_def)
  have g: "get_firmware_version demo_env = ustr ''1.2.0''"
    by (simp add: get_firmware_version_def GetProjectOption_def demo_env_def ustr_def)
  have e: "env_BOARD demo_env = Some (ustr ''esp32dev'')" by (simp add: demo_env_def)
  show ?thesis
    using staged_manifest_round_trip [of demo_fs "''abc''" demo_env demo_md5hex
            "ustr ''2024-01-01T00:00:00''" True "demo_net (\<lambda>n. Response 200 [])"
            "\<lparr>os_FLASH_METHOD = None, os_OTA_SERVER_URL = None\<rparr>"]
          fw v b h n
    by (simp add: g e demo_md5hex_def)
qed

end
